theory Spec2Isabelle
  imports Complex_Main "HOL-Library.Word"
begin

unbundle bit_operations_syntax

section \<open>Readers, errors and the primitive reads\<close>

text \<open>
  The decoders read from a Go \<^verbatim>\<open>bytes.Reader\<close> over an immutable slice. The reader is
  modelled by its unread portion \<^verbatim>\<open>r.s[r.i:]\<close>: \<^verbatim>\<open>r.Len()\<close> is the length of that list,
  a read removes bytes from its front, and \<^verbatim>\<open>r.Seek(1, io.SeekCurrent)\<close> drops one byte
  (seeking past the end leaves the unread portion empty, as \<^verbatim>\<open>r.Len()\<close> stays 0 there).
  Every Go function that returns \<^verbatim>\<open>(value, error)\<close> and advances the reader becomes a
  function returning the result together with the reader it leaves behind.
\<close>

type_synonym byte = "8 word"
type_synonym reader = "byte list"

datatype error =
    EOF
  | ErrUnexpectedEOF
  | VarintOverflow
  | UnexpectedTag
  | FileTooSmall
  | NotAV6File
  | NotEnoughData
  | InvalidStrokeParameters
  | FailedToReadHeader error
  | InvalidHeader

text \<open>\<^verbatim>\<open>if err != nil { return nil, err }\<close>: stop at the first error, keep the reader.\<close>

definition andThen ::
  "(error + 'a) \<times> reader \<Rightarrow> ('a \<Rightarrow> reader \<Rightarrow> (error + 'b) \<times> reader) \<Rightarrow> (error + 'b) \<times> reader"
where
  "andThen m f = (case m of (Inl e, r) \<Rightarrow> (Inl e, r) | (Inr a, r) \<Rightarrow> f a r)"

text \<open>\<^verbatim>\<open>make([]byte, n)\<close>: a zeroed buffer of the requested length.\<close>

definition make_bytes :: "nat \<Rightarrow> byte list" where
  "make_bytes n = replicate n 0"

text \<open>
  \<^verbatim>\<open>io.ReadFull(r, buf)\<close> on a \<^verbatim>\<open>bytes.Reader\<close>: fills \<^verbatim>\<open>buf\<close> completely or fails. With an
  empty buffer it reads nothing; with nothing left to read the error is \<^verbatim>\<open>io.EOF\<close>; with
  some but too few bytes left they are all copied and the error is
  \<^verbatim>\<open>io.ErrUnexpectedEOF\<close>. The buffer is returned as the call leaves it.
\<close>

definition ReadFull :: "byte list \<Rightarrow> reader \<Rightarrow> (byte list \<times> error option) \<times> reader" where
  "ReadFull buf r =
     (if length buf = 0 then ((buf, None), r)
      else if length r = 0 then ((buf, Some EOF), r)
      else if length r < length buf then ((r @ drop (length r) buf, Some ErrUnexpectedEOF), [])
      else ((take (length buf) r, None), drop (length buf) r))"

text \<open>\<^verbatim>\<open>binary.Read\<close> of a fixed-size value: \<^verbatim>\<open>io.ReadFull\<close> into a fresh buffer of its size.\<close>

definition binary_Read :: "nat \<Rightarrow> reader \<Rightarrow> (error + byte list) \<times> reader" where
  "binary_Read n r =
     (case ReadFull (make_bytes n) r of
        ((bs, None), r') \<Rightarrow> (Inr bs, r')
      | ((bs, Some err), r') \<Rightarrow> (Inl err, r'))"

text \<open>\<^verbatim>\<open>binary.LittleEndian\<close>: the first byte is the least significant.\<close>

fun le_nat :: "byte list \<Rightarrow> nat" where
  "le_nat [] = 0"
| "le_nat (b # bs) = unat b + 256 * le_nat bs"

definition le_word :: "byte list \<Rightarrow> 'a::len word" where
  "le_word bs = word_of_nat (le_nat bs)"

definition binary_Read_u8 :: "reader \<Rightarrow> (error + byte) \<times> reader" where
  "binary_Read_u8 r = andThen (binary_Read 1 r) (\<lambda>bs r'. (Inr (le_word bs), r'))"

definition binary_Read_u16 :: "reader \<Rightarrow> (error + 16 word) \<times> reader" where
  "binary_Read_u16 r = andThen (binary_Read 2 r) (\<lambda>bs r'. (Inr (le_word bs), r'))"

definition binary_Read_u32 :: "reader \<Rightarrow> (error + 32 word) \<times> reader" where
  "binary_Read_u32 r = andThen (binary_Read 4 r) (\<lambda>bs r'. (Inr (le_word bs), r'))"

definition binary_Read_u64 :: "reader \<Rightarrow> (error + 64 word) \<times> reader" where
  "binary_Read_u64 r = andThen (binary_Read 8 r) (\<lambda>bs r'. (Inr (le_word bs), r'))"

text \<open>
  A \<^verbatim>\<open>float32\<close> or \<^verbatim>\<open>float64\<close> is carried as its IEEE-754 bit pattern, which is what
  \<^verbatim>\<open>binary.Read\<close> decodes (\<^verbatim>\<open>math.Float32frombits\<close> of the little-endian word).
\<close>

type_synonym f32 = "32 word"
type_synonym f64 = "64 word"

subsection \<open>Comparing a \<^verbatim>\<open>float32\<close> with a constant\<close>

text \<open>
  The stroke scanner compares the \<^verbatim>\<open>float32\<close> values it reads with the constants 0,
  100, 2000 and 3000. A bit pattern with exponent field 255 and a non-zero fraction is a
  NaN, and every comparison with a NaN is false. Any other pattern has the value given by its sign,
  exponent and fraction; an infinity gets the value \<open>\<plusminus> 2 ^ 128\<close>, beyond every finite
  \<^verbatim>\<open>float32\<close>, which orders it correctly against the constants.
\<close>

definition f32_isNaN :: "f32 \<Rightarrow> bool" where
  "f32_isNaN w = (drop_bit 23 w AND 0xFF = 0xFF \<and> w AND 0x7FFFFF \<noteq> 0)"

definition f32_val :: "f32 \<Rightarrow> real" where
  "f32_val w =
     (let sign = (if bit w 31 then - 1 else 1);
          e = unat (drop_bit 23 w AND 0xFF);
          m = unat (w AND 0x7FFFFF)
      in if e = 0 then sign * real m / 2 ^ 149
         else if e \<ge> 150 then sign * real (2 ^ 23 + m) * 2 ^ (e - 150)
         else sign * real (2 ^ 23 + m) / 2 ^ (150 - e))"

definition f32_lt :: "f32 \<Rightarrow> real \<Rightarrow> bool" where
  "f32_lt w c = (\<not> f32_isNaN w \<and> f32_val w < c)"

definition f32_gt :: "f32 \<Rightarrow> real \<Rightarrow> bool" where
  "f32_gt w c = (\<not> f32_isNaN w \<and> f32_val w > c)"

definition f32_le :: "f32 \<Rightarrow> real \<Rightarrow> bool" where
  "f32_le w c = (\<not> f32_isNaN w \<and> f32_val w \<le> c)"

definition f32_ge :: "f32 \<Rightarrow> real \<Rightarrow> bool" where
  "f32_ge w c = (\<not> f32_isNaN w \<and> f32_val w \<ge> c)"

subsection \<open>Arithmetic on \<^verbatim>\<open>float32\<close> and conversion to unsigned integers\<close>

text \<open>
  A \<^verbatim>\<open>float32\<close> is a NaN, an infinity with its sign, or a finite number; the sign of a
  zero is dropped, since nothing below depends on it.
\<close>

datatype f32_value = NaN | Infinity bool | Finite real

definition f32_decode :: "f32 \<Rightarrow> f32_value" where
  "f32_decode w =
     (if drop_bit 23 w AND 0xFF = 0xFF
      then (if w AND 0x7FFFFF = 0 then Infinity (bit w 31) else NaN)
      else Finite (f32_val w))"

text \<open>
  The result of a \<^verbatim>\<open>float32\<close> operation is the exact result rounded to the nearest
  \<^verbatim>\<open>float32\<close>, ties to the even significand. The finite \<^verbatim>\<open>float32\<close> numbers are the
  multiples \<open>m * 2 ^ k / 2 ^ 149\<close> with \<open>m < 2 ^ 24\<close> below \<open>2 ^ 128\<close>; \<open>f32_round\<close> scales
  the magnitude by \<open>2 ^ 149\<close>, keeps its 24 leading bits, and gives an infinity when the
  rounded magnitude reaches \<open>2 ^ 128\<close>.
\<close>

fun bit_length :: "nat \<Rightarrow> nat" where
  "bit_length n = (if n = 0 then 0 else Suc (bit_length (n div 2)))"

declare bit_length.simps [simp del]

definition round_half_even :: "real \<Rightarrow> int" where
  "round_half_even x =
     (let f = \<lfloor>x\<rfloor>
      in if x - of_int f < 1 / 2 then f
         else if x - of_int f > 1 / 2 then f + 1
         else if even f then f else f + 1)"

definition f32_unit :: real where
  "f32_unit = 2 ^ 149"

definition f32_round :: "real \<Rightarrow> f32_value" where
  "f32_round x =
     (let a = \<bar>x\<bar> * f32_unit;
          k = bit_length (nat \<lfloor>a\<rfloor>) - 24;
          m = round_half_even (a / 2 ^ k) * 2 ^ k
      in if of_int m \<ge> 2 ^ 128 * f32_unit then Infinity (x < 0)
         else Finite (sgn x * of_int m / f32_unit))"

text \<open>
  Multiplication and division of a \<^verbatim>\<open>float32\<close> by a positive finite constant: a NaN and
  an infinity are unchanged.
\<close>

definition f32_mul :: "f32_value \<Rightarrow> real \<Rightarrow> f32_value" where
  "f32_mul v c = (case v of Finite x \<Rightarrow> f32_round (x * c) | _ \<Rightarrow> v)"

definition f32_div :: "f32_value \<Rightarrow> real \<Rightarrow> f32_value" where
  "f32_div v c = (case v of Finite x \<Rightarrow> f32_round (x / c) | _ \<Rightarrow> v)"

text \<open>
  The conversions \<^verbatim>\<open>uint16(f)\<close> and \<^verbatim>\<open>uint8(f)\<close> of a \<^verbatim>\<open>float32\<close>. The language leaves the
  result open when the truncated value does not fit the integer type. The Go compiler
  converts the value to a signed 32-bit integer, discarding the fraction, and keeps the low
  16 or 8 bits of it, so a value that fits 32 bits wraps around modulo \<open>2 ^ 16\<close> or
  \<open>2 ^ 8\<close>. What the 32-bit conversion gives for a NaN, an infinity or a value beyond 32 bits
  differs between processors, and stays a parameter of the parser.
\<close>

definition toward_zero :: "real \<Rightarrow> int" where
  "toward_zero x = (if x < 0 then - \<lfloor>- x\<rfloor> else \<lfloor>x\<rfloor>)"

record float_conv =
  indefinite_uint16 :: "f32_value \<Rightarrow> 16 word"
  indefinite_uint8 :: "f32_value \<Rightarrow> byte"

definition fits_int32 :: "f32_value \<Rightarrow> bool" where
  "fits_int32 v =
     (case v of
        Finite x \<Rightarrow> - (2 ^ 31) \<le> toward_zero x \<and> toward_zero x < 2 ^ 31
      | _ \<Rightarrow> False)"

definition to_uint16 :: "float_conv \<Rightarrow> f32_value \<Rightarrow> 16 word" where
  "to_uint16 fc v =
     (case v of
        Finite x \<Rightarrow> if fits_int32 v then word_of_int (toward_zero x) else indefinite_uint16 fc v
      | _ \<Rightarrow> indefinite_uint16 fc v)"

definition to_uint8 :: "float_conv \<Rightarrow> f32_value \<Rightarrow> byte" where
  "to_uint8 fc v =
     (case v of
        Finite x \<Rightarrow> if fits_int32 v then word_of_int (toward_zero x) else indefinite_uint8 fc v
      | _ \<Rightarrow> indefinite_uint8 fc v)"

text \<open>
  The constant \<^verbatim>\<open>2 * 3.14159\<close> as a \<^verbatim>\<open>float32\<close>: the \<^verbatim>\<open>float32\<close> nearest to 6.28318.
\<close>

definition float32_6_28318 :: real where
  "float32_6_28318 = 13176784 / 2 ^ 21"

section \<open>The V6 tagged-block parser\<close>

subsection \<open>Constants and data\<close>

text \<open>
  Modelled from the spec: the constants \<^verbatim>\<open>HeaderLen\<close> and \<^verbatim>\<open>HeaderV6\<close> that
  \<^verbatim>\<open>ParseV6\<close> uses are declared in a file of the \<^verbatim>\<open>rm\<close> package that is not among the
  sources. The header is 43 bytes (the comment in \<^verbatim>\<open>ParseV6\<close>), and the V6 literal is the
  space-padded string that the V6 file itself declares as \<^verbatim>\<open>HEADER_V6\<close>.
\<close>

definition HeaderLen :: nat where
  "HeaderLen = 43"

definition bytes_of :: "string \<Rightarrow> byte list" where
  "bytes_of str = map (\<lambda>c. of_char c) str"

definition HeaderV6 :: "byte list" where
  "HeaderV6 = bytes_of ''reMarkable .lines file, version=6          ''"

definition BLOCK_SCENE_ITEM :: byte where "BLOCK_SCENE_ITEM = 0x05"

definition TAG_BYTE1 :: byte where "TAG_BYTE1 = 0x01"
definition TAG_BYTE4 :: byte where "TAG_BYTE4 = 0x04"
definition TAG_BYTE8 :: byte where "TAG_BYTE8 = 0x08"
definition TAG_LENGTH4 :: byte where "TAG_LENGTH4 = 0x0C"
definition TAG_ID :: byte where "TAG_ID = 0x0F"

definition ITEM_TYPE_LINE :: byte where "ITEM_TYPE_LINE = 0x03"

record V6Block =
  BlockType :: byte
  MinVersion :: byte
  CurrentVersion :: byte
  Size :: "32 word"
  Data :: "byte list"

record V6Point =
  X :: f32
  Y :: f32
  Speed :: "16 word"
  Width :: "16 word"
  Direction :: byte
  Pressure :: byte

text \<open>\<^verbatim>\<open>Color\<close> and \<^verbatim>\<open>Tool\<close> are \<^verbatim>\<open>int32(x)\<close> of the \<^verbatim>\<open>uint32\<close> read: the same 32 bits.\<close>

record V6Line =
  Color :: "32 word"
  Tool :: "32 word"
  Points :: "V6Point list"
  ThicknessScale :: f64
  StartingLength :: f32

record V6CrdtId =
  Part1 :: byte
  Part2 :: "64 word"

subsection \<open>Variable-length integers, identifiers and tags\<close>

text \<open>
  \<^verbatim>\<open>readVarint\<close>: the loop body once per byte read, \<^verbatim>\<open>result\<close> and \<^verbatim>\<open>shift\<close> carried
  along. \<^verbatim>\<open>r.ReadByte()\<close> fails with \<^verbatim>\<open>io.EOF\<close> on an exhausted reader. The shift
  \<^verbatim>\<open>uint64(b&0x7F) << shift\<close> discards the bits moved beyond bit 63, as \<open>push_bit\<close> on
  a 64-bit word does.
\<close>

fun readVarint_loop :: "64 word \<Rightarrow> nat \<Rightarrow> reader \<Rightarrow> (error + 64 word) \<times> reader" where
  "readVarint_loop result shift [] = (Inl EOF, [])"
| "readVarint_loop result shift (b # r) =
     (let result' = result OR push_bit shift (ucast (b AND 0x7F))
      in if b AND 0x80 = 0 then (Inr result', r)
         else let shift' = shift + 7
              in if shift' \<ge> 64 then (Inl VarintOverflow, r)
                 else readVarint_loop result' shift' r)"

definition readVarint :: "reader \<Rightarrow> (error + 64 word) \<times> reader" where
  "readVarint r = readVarint_loop 0 0 r"

definition readCrdtId :: "reader \<Rightarrow> (error + V6CrdtId) \<times> reader" where
  "readCrdtId r =
     andThen (binary_Read_u8 r) (\<lambda>part1 r.
     andThen (readVarint r) (\<lambda>part2 r.
       (Inr \<lparr>Part1 = part1, Part2 = part2\<rparr>, r)))"

definition expectTag :: "reader \<Rightarrow> nat \<Rightarrow> byte \<Rightarrow> (error + bool) \<times> reader" where
  "expectTag r expectedIndex expectedType =
     andThen (readVarint r) (\<lambda>tagValue r.
       let index = unat (drop_bit 4 tagValue);
           tagType = (ucast (tagValue AND 0x0F) :: byte)
       in if index \<noteq> expectedIndex \<or> tagType \<noteq> expectedType then (Inl UnexpectedTag, r)
          else (Inr True, r))"

subsection \<open>The block stream\<close>

text \<open>
  \<^verbatim>\<open>parseV6Block\<close> returns the block as far as it was filled in, together with the error,
  as the Go function does (\<^verbatim>\<open>return block, err\<close>). The payload buffer is allocated with
  \<^verbatim>\<open>make([]byte, block.Size)\<close> before \<^verbatim>\<open>io.ReadFull\<close> is called on it.
\<close>

definition zero_block :: V6Block where
  "zero_block = \<lparr>BlockType = 0, MinVersion = 0, CurrentVersion = 0, Size = 0, Data = []\<rparr>"

definition parseV6Block :: "reader \<Rightarrow> (V6Block \<times> error option) \<times> reader" where
  "parseV6Block r =
     (let block = zero_block in
      case binary_Read_u32 r of
        (Inl err, r) \<Rightarrow> ((block, Some err), r)
      | (Inr blockLength, r) \<Rightarrow>
      let block = block\<lparr>Size := blockLength\<rparr> in
      case binary_Read_u8 r of
        (Inl err, r) \<Rightarrow> ((block, Some err), r)
      | (Inr unknown, r) \<Rightarrow>
      case binary_Read_u8 r of
        (Inl err, r) \<Rightarrow> ((block, Some err), r)
      | (Inr minVersion, r) \<Rightarrow>
      let block = block\<lparr>MinVersion := minVersion\<rparr> in
      case binary_Read_u8 r of
        (Inl err, r) \<Rightarrow> ((block, Some err), r)
      | (Inr currentVersion, r) \<Rightarrow>
      let block = block\<lparr>CurrentVersion := currentVersion\<rparr> in
      case binary_Read_u8 r of
        (Inl err, r) \<Rightarrow> ((block, Some err), r)
      | (Inr blockType, r) \<Rightarrow>
      let block = block\<lparr>BlockType := blockType\<rparr> in
      if Size block > 0 then
        (case ReadFull (make_bytes (unat (Size block))) r of
           ((buf, Some err), r) \<Rightarrow> ((block\<lparr>Data := buf\<rparr>, Some err), r)
         | ((buf, None), r) \<Rightarrow> ((block\<lparr>Data := buf\<rparr>, None), r))
      else ((block, None), r))"


text \<open>What a successful read consumes; needed for the termination of the block loop.\<close>

lemma binary_Read_len:
  "binary_Read n r = (Inr bs, r') \<Longrightarrow> length r = n + length r' \<and> length bs = n"
  by (auto simp: binary_Read_def ReadFull_def make_bytes_def split: if_splits)

lemma binary_Read_u32_len: "binary_Read_u32 r = (Inr v, r') \<Longrightarrow> length r = 4 + length r'"
  by (auto simp: binary_Read_u32_def andThen_def split: prod.splits sum.splits
      dest: binary_Read_len)

lemma binary_Read_u8_len: "binary_Read_u8 r = (Inr v, r') \<Longrightarrow> length r = 1 + length r'"
  by (auto simp: binary_Read_u8_def andThen_def split: prod.splits sum.splits
      dest: binary_Read_len)

lemma ReadFull_len: "ReadFull buf r = (x, r') \<Longrightarrow> length r' \<le> length r"
  by (auto simp: ReadFull_def split: if_splits)

lemma parseV6Block_ok_len:
  assumes "parseV6Block r = ((block, None), r')"
  shows "length r' + 8 \<le> length r"
proof -
  from assms obtain v1 r1 v2 r2 v3 r3 v4 r4 v5 r5 where
    reads: "binary_Read_u32 r = (Inr v1, r1)" "binary_Read_u8 r1 = (Inr v2, r2)"
      "binary_Read_u8 r2 = (Inr v3, r3)" "binary_Read_u8 r3 = (Inr v4, r4)"
      "binary_Read_u8 r4 = (Inr v5, r5)"
    and payload: "r' = r5 \<or> (\<exists>x. ReadFull (make_bytes (unat v1)) r5 = (x, r'))"
    unfolding parseV6Block_def Let_def
    by (simp split: prod.splits sum.splits option.splits if_splits)
  from payload have "length r' \<le> length r5"
    using ReadFull_len by blast
  with reads show ?thesis
    by (auto dest!: binary_Read_u32_len binary_Read_u8_len)
qed

text \<open>
  \<^verbatim>\<open>parseV6Blocks\<close>: the loop \<^verbatim>\<open>for r.Len() > 0\<close>. An \<^verbatim>\<open>io.EOF\<close> from \<^verbatim>\<open>parseV6Block\<close>
  leaves the loop (\<^verbatim>\<open>break\<close>) and the blocks read so far are returned without error;
  any other error is returned with them.
\<close>

function parseV6Blocks_loop :: "reader \<Rightarrow> V6Block list \<Rightarrow> V6Block list \<times> error option" where
  "parseV6Blocks_loop r blocks =
     (if length r > 0 then
        (case parseV6Block r of
           ((block, Some err), r') \<Rightarrow> if err = EOF then (blocks, None) else (blocks, Some err)
         | ((block, None), r') \<Rightarrow> parseV6Blocks_loop r' (blocks @ [block]))
      else (blocks, None))"
  by pat_completeness auto
termination
proof (relation "measure (\<lambda>(r, blocks). length r)")
  show "wf (measure (\<lambda>(r, blocks). length r))"
    by simp
next
  fix r :: reader and blocks :: "V6Block list" and x r' block eo
  assume res: "(x, r') = parseV6Block r" "(block, eo) = x" "eo = None"
  have "parseV6Block r = ((block, None), r')"
    using res by simp
  then have "length r' < length r"
    using parseV6Block_ok_len by fastforce
  then show "((r', blocks @ [block]), (r, blocks)) \<in> measure (\<lambda>(r, blocks). length r)"
    by simp
qed

declare parseV6Blocks_loop.simps [simp del]

definition parseV6Blocks :: "reader \<Rightarrow> V6Block list \<times> error option" where
  "parseV6Blocks r = parseV6Blocks_loop r []"


subsection \<open>Points, lines and scene items\<close>

text \<open>
  A version-1 point stores speed, direction, width and pressure as \<^verbatim>\<open>float32\<close>, and
  \<^verbatim>\<open>parsePoint\<close> converts them with \<^verbatim>\<open>uint16(speed * 4)\<close>, \<^verbatim>\<open>uint16(width * 4)\<close>,
  \<^verbatim>\<open>uint8(dir * 255 / (2 * 3.14159))\<close> and \<^verbatim>\<open>uint8(pressure * 255)\<close>: each product and
  quotient is a \<^verbatim>\<open>float32\<close> operation, and there is no test of the range before the
  conversion.
\<close>

definition parsePoint :: "float_conv \<Rightarrow> reader \<Rightarrow> byte \<Rightarrow> (error + V6Point) \<times> reader" where
  "parsePoint fc r version =
     andThen (binary_Read_u32 r) (\<lambda>x r.
     andThen (binary_Read_u32 r) (\<lambda>y r.
       if version = 1 then
         andThen (binary_Read_u32 r) (\<lambda>speed r.
         andThen (binary_Read_u32 r) (\<lambda>dir r.
         andThen (binary_Read_u32 r) (\<lambda>width r.
         andThen (binary_Read_u32 r) (\<lambda>pressure r.
           (Inr \<lparr>X = x, Y = y,
                 Speed = to_uint16 fc (f32_mul (f32_decode speed) 4),
                 Width = to_uint16 fc (f32_mul (f32_decode width) 4),
                 Direction = to_uint8 fc
                   (f32_div (f32_mul (f32_decode dir) 255) float32_6_28318),
                 Pressure = to_uint8 fc (f32_mul (f32_decode pressure) 255)\<rparr>, r)))))
       else
         andThen (binary_Read_u16 r) (\<lambda>speed r.
         andThen (binary_Read_u16 r) (\<lambda>width r.
         andThen (binary_Read_u8 r) (\<lambda>direction r.
         andThen (binary_Read_u8 r) (\<lambda>pressure r.
           (Inr \<lparr>X = x, Y = y, Speed = speed, Width = width,
                 Direction = direction, Pressure = pressure\<rparr>, r)))))))"

definition zero_point :: V6Point where
  "zero_point = \<lparr>X = 0, Y = 0, Speed = 0, Width = 0, Direction = 0, Pressure = 0\<rparr>"

text \<open>
  The loop of \<^verbatim>\<open>parseLineData\<close> over \<^verbatim>\<open>i < numPoints\<close>, storing each point into the
  slice made beforehand (\<^verbatim>\<open>line.Points[i] = point\<close>).
\<close>

function parseLineData_loop ::
  "float_conv \<Rightarrow> byte \<Rightarrow> nat \<Rightarrow> nat \<Rightarrow> V6Point list \<Rightarrow> reader \<Rightarrow> (error + V6Point list) \<times> reader"
where
  "parseLineData_loop fc version numPoints i points r =
     (if i < numPoints then
        (case parsePoint fc r version of
           (Inl err, r') \<Rightarrow> (Inl err, r')
         | (Inr point, r') \<Rightarrow> parseLineData_loop fc version numPoints (i + 1) (points[i := point]) r')
      else (Inr points, r))"
  by pat_completeness auto
termination
  by (relation "measure (\<lambda>(fc, version, numPoints, i, points, r). numPoints - i)") auto

declare parseLineData_loop.simps [simp del]

text \<open>
  The five tagged fields that \<^verbatim>\<open>parseLineData\<close> reads before the points: the line with
  its scalar fields set, and the declared byte length \<^verbatim>\<open>pointsLen\<close> of the points subblock.
\<close>

definition parseLineData_fields :: "reader \<Rightarrow> (error + V6Line \<times> 32 word) \<times> reader" where
  "parseLineData_fields r =
     andThen (expectTag r 1 TAG_BYTE4) (\<lambda>_ r.
     andThen (binary_Read_u32 r) (\<lambda>tool r.
     andThen (expectTag r 2 TAG_BYTE4) (\<lambda>_ r.
     andThen (binary_Read_u32 r) (\<lambda>color r.
     andThen (expectTag r 3 TAG_BYTE8) (\<lambda>_ r.
     andThen (binary_Read_u64 r) (\<lambda>thicknessScale r.
     andThen (expectTag r 4 TAG_BYTE4) (\<lambda>_ r.
     andThen (binary_Read_u32 r) (\<lambda>startingLength r.
     andThen (expectTag r 5 TAG_LENGTH4) (\<lambda>_ r.
     andThen (binary_Read_u32 r) (\<lambda>pointsLen r.
       (Inr (\<lparr>Color = color, Tool = tool, Points = [],
              ThicknessScale = thicknessScale, StartingLength = startingLength\<rparr>,
             pointsLen), r)))))))))))"

definition pointSize :: "byte \<Rightarrow> nat" where
  "pointSize version = (if version = 1 then 24 else 14)"

definition parseLineData :: "float_conv \<Rightarrow> reader \<Rightarrow> byte \<Rightarrow> (error + V6Line) \<times> reader" where
  "parseLineData fc r version =
     andThen (parseLineData_fields r) (\<lambda>(line, pointsLen) r.
       let numPoints = unat pointsLen div pointSize version;
           line = line\<lparr>Points := replicate numPoints zero_point\<rparr>
       in andThen (parseLineData_loop fc version numPoints 0 (Points line) r) (\<lambda>points r.
            (Inr (line\<lparr>Points := points\<rparr>), r)))"

text \<open>
  The first part of \<^verbatim>\<open>parseSceneItemBlock\<close>: the four tagged identifiers and the tagged
  \<^verbatim>\<open>deleted_length\<close>, which is returned.
\<close>

definition parseSceneItemBlock_links :: "reader \<Rightarrow> (error + 32 word) \<times> reader" where
  "parseSceneItemBlock_links r =
     andThen (expectTag r 1 TAG_ID) (\<lambda>_ r.
     andThen (readCrdtId r) (\<lambda>_ r.
     andThen (expectTag r 2 TAG_ID) (\<lambda>_ r.
     andThen (readCrdtId r) (\<lambda>_ r.
     andThen (expectTag r 3 TAG_ID) (\<lambda>_ r.
     andThen (readCrdtId r) (\<lambda>_ r.
     andThen (expectTag r 4 TAG_ID) (\<lambda>_ r.
     andThen (readCrdtId r) (\<lambda>_ r.
     andThen (expectTag r 5 TAG_BYTE4) (\<lambda>_ r.
       binary_Read_u32 r)))))))))"

text \<open>
  \<^verbatim>\<open>parseSceneItemBlock\<close> returns \<^verbatim>\<open>(nil, err)\<close>, \<^verbatim>\<open>(nil, nil)\<close> or \<^verbatim>\<open>(line, nil)\<close>:
  \<open>Inl err\<close>, \<open>Inr None\<close> and \<open>Inr (Some line)\<close>. A failing \<^verbatim>\<open>expectTag\<close> for the value
  subblock is not an error (\<^verbatim>\<open>return nil, nil\<close>).
\<close>

definition parseSceneItemBlock :: "float_conv \<Rightarrow> byte list \<Rightarrow> byte \<Rightarrow> error + V6Line option" where
  "parseSceneItemBlock fc data blockVersion =
     (case parseSceneItemBlock_links data of
        (Inl err, r) \<Rightarrow> Inl err
      | (Inr deletedLength, r) \<Rightarrow>
      if deletedLength > 0 then Inr None
      else if length r = 0 then Inr None
      else
        (case expectTag r 6 TAG_LENGTH4 of
           (Inl err, r) \<Rightarrow> Inr None
         | (Inr _, r) \<Rightarrow>
        (case binary_Read_u32 r of
           (Inl err, r) \<Rightarrow> Inl err
         | (Inr subblockLen, r) \<Rightarrow>
        (case binary_Read_u8 r of
           (Inl err, r) \<Rightarrow> Inl err
         | (Inr itemType, r) \<Rightarrow>
        if itemType \<noteq> ITEM_TYPE_LINE then Inr None
        else
          (case parseLineData fc r blockVersion of
             (Inl err, r) \<Rightarrow> Inl err
           | (Inr line, r) \<Rightarrow> Inr (Some line))))))"

text \<open>
  \<^verbatim>\<open>extractLinesFromV6Blocks\<close>: a line is appended only when
  \<^verbatim>\<open>err == nil && line != nil\<close>; the error of a scene item is not looked at otherwise.
\<close>

fun extractLines_loop :: "float_conv \<Rightarrow> V6Block list \<Rightarrow> V6Line list \<Rightarrow> V6Line list" where
  "extractLines_loop fc [] lines = lines"
| "extractLines_loop fc (block # blocks) lines =
     extractLines_loop fc blocks
       (if BlockType block = BLOCK_SCENE_ITEM then
          (case parseSceneItemBlock fc (Data block) (CurrentVersion block) of
             Inr (Some line) \<Rightarrow> lines @ [line]
           | _ \<Rightarrow> lines)
        else lines)"

definition extractLinesFromV6Blocks :: "float_conv \<Rightarrow> V6Block list \<Rightarrow> V6Line list" where
  "extractLinesFromV6Blocks fc blocks = extractLines_loop fc blocks []"

subsection \<open>The entry point\<close>

text \<open>
  Modelled from the spec: the result types \<^verbatim>\<open>Rm\<close>, \<^verbatim>\<open>Layer\<close> and \<^verbatim>\<open>Line\<close> of the \<^verbatim>\<open>rm\<close>
  package are declared in a file that is not among the sources. A document has a version
  and layers, a layer has lines; the line type is left open, and the function
  \<^verbatim>\<open>convertV6Line\<close>, which builds a value of that type from each \<^verbatim>\<open>V6Line\<close>, is a
  parameter of \<^verbatim>\<open>ParseV6\<close>.
\<close>

datatype Version = V3 | V5 | V6

record 'line Layer =
  Lines :: "'line list"

record 'line Rm =
  Version :: Version
  Layers :: "'line Layer list"

definition ParseV6 ::
  "float_conv \<Rightarrow> (V6Line \<Rightarrow> 'line) \<Rightarrow> byte list \<Rightarrow> error + 'line Rm"
where
  "ParseV6 fc convertV6Line data =
     (if length data < HeaderLen then Inl FileTooSmall
      else if take HeaderLen data \<noteq> HeaderV6 then Inl NotAV6File
      else
        (case parseV6Blocks (drop HeaderLen data) of
           (blocks, Some err) \<Rightarrow> Inl err
         | (blocks, None) \<Rightarrow>
             let lines = extractLinesFromV6Blocks fc blocks
             in Inr \<lparr>Version = V6, Layers = [\<lparr>Lines = map convertV6Line lines\<rparr>]\<rparr>))"

section \<open>The simplified stroke scanner of the conversion package\<close>

subsection \<open>Pages, strokes and points\<close>

record Point =
  X :: f32
  Y :: f32
  Speed :: f32
  Direction :: f32
  Width :: f32
  Pressure :: f32

record Stroke =
  Tool :: int
  Color :: int
  Width :: f32
  Points :: "Point list"

record Page =
  Width :: f32
  Height :: f32
  Strokes :: "Stroke list"

definition rmHeaderSize :: nat where
  "rmHeaderSize = 43"

definition rmHeader :: "byte list" where
  "rmHeader = bytes_of ''reMarkable .lines file, version=6''"

subsection \<open>\<^verbatim>\<open>tryParseStroke\<close> and the scanning loop\<close>

text \<open>
  The point loop of \<^verbatim>\<open>tryParseStroke\<close>:
  \<^verbatim>\<open>for i := uint32(0); i < pointCount && reader.Len() >= 24; i++\<close>. A failing read
  leaves the loop (\<^verbatim>\<open>break\<close>); a point is appended only when its coordinates are within
  \<open>[0, 2000] \<times> [0, 3000]\<close>.
\<close>

function tryParseStroke_loop :: "nat \<Rightarrow> nat \<Rightarrow> Point list \<Rightarrow> reader \<Rightarrow> Point list \<times> reader" where
  "tryParseStroke_loop pointCount i points r =
     (if i < pointCount \<and> length r \<ge> 24 then
        (case binary_Read_u32 r of (Inl err, r) \<Rightarrow> (points, r) | (Inr x, r) \<Rightarrow>
        (case binary_Read_u32 r of (Inl err, r) \<Rightarrow> (points, r) | (Inr y, r) \<Rightarrow>
        (case binary_Read_u32 r of (Inl err, r) \<Rightarrow> (points, r) | (Inr speed, r) \<Rightarrow>
        (case binary_Read_u32 r of (Inl err, r) \<Rightarrow> (points, r) | (Inr direction, r) \<Rightarrow>
        (case binary_Read_u32 r of (Inl err, r) \<Rightarrow> (points, r) | (Inr width, r) \<Rightarrow>
        (case binary_Read_u32 r of (Inl err, r) \<Rightarrow> (points, r) | (Inr pressure, r) \<Rightarrow>
           let point = \<lparr>X = x, Y = y, Speed = speed, Direction = direction,
                        Width = width, Pressure = pressure\<rparr>
           in tryParseStroke_loop pointCount (i + 1)
                (if f32_ge x 0 \<and> f32_le x 2000 \<and> f32_ge y 0 \<and> f32_le y 3000
                 then points @ [point] else points) r))))))
      else (points, r))"
  by pat_completeness auto
termination
  by (relation "measure (\<lambda>(pointCount, i, points, r). pointCount - i)") auto

definition tryParseStroke :: "reader \<Rightarrow> (error + Stroke) \<times> reader" where
  "tryParseStroke r =
     (if length r < 20 then (Inl NotEnoughData, r)
      else
        andThen (binary_Read_u32 r) (\<lambda>tool r.
        andThen (binary_Read_u32 r) (\<lambda>color r.
        andThen (binary_Read_u32 r) (\<lambda>width r.
        andThen (binary_Read_u32 r) (\<lambda>pointCount r.
          if tool > 10 \<or> color > 10 \<or> f32_lt width 0 \<or> f32_gt width 100
             \<or> pointCount = 0 \<or> pointCount > 10000
          then (Inl InvalidStrokeParameters, r)
          else
            (case tryParseStroke_loop (unat pointCount) 0 [] r of
               (points, r) \<Rightarrow>
                 (Inr \<lparr>Tool = uint tool, Color = uint color, Width = width, Points = points\<rparr>,
                  r)))))))"

text \<open>What the reads and one scan attempt consume; needed for the termination of the scan.\<close>

lemma binary_Read_ok:
  "n \<le> length r \<Longrightarrow> binary_Read n r = (Inr (take n r), drop n r)"
  by (auto simp: binary_Read_def ReadFull_def make_bytes_def)

lemma binary_Read_short:
  "length r < n \<Longrightarrow> binary_Read n r = (Inl (if r = [] then EOF else ErrUnexpectedEOF), [])"
  by (auto simp: binary_Read_def ReadFull_def make_bytes_def)

lemma binary_Read_u32_ok:
  "4 \<le> length r \<Longrightarrow> binary_Read_u32 r = (Inr (le_word (take 4 r)), drop 4 r)"
  by (simp add: binary_Read_u32_def binary_Read_ok andThen_def)

lemma binary_Read_u32_short:
  "length r < 4 \<Longrightarrow> binary_Read_u32 r = (Inl (if r = [] then EOF else ErrUnexpectedEOF), [])"
  by (simp add: binary_Read_u32_def binary_Read_short andThen_def)

lemma binary_Read_u8_ok:
  "1 \<le> length r \<Longrightarrow> binary_Read_u8 r = (Inr (le_word (take 1 r)), drop 1 r)"
  by (simp add: binary_Read_u8_def binary_Read_ok andThen_def)

lemma binary_Read_u8_short:
  "binary_Read_u8 [] = (Inl EOF, [])"
  by (simp add: binary_Read_u8_def binary_Read_short andThen_def)

declare tryParseStroke_loop.simps [simp del]

lemma tryParseStroke_loop_step:
  assumes "i < pointCount" "24 \<le> length r"
  shows "tryParseStroke_loop pointCount i points r
           = tryParseStroke_loop pointCount (i + 1)
               (if f32_ge (le_word (take 4 r)) 0 \<and> f32_le (le_word (take 4 r)) 2000
                   \<and> f32_ge (le_word (take 4 (drop 4 r))) 0
                   \<and> f32_le (le_word (take 4 (drop 4 r))) 3000
                then points @ [\<lparr>X = le_word (take 4 r), Y = le_word (take 4 (drop 4 r)),
                       Speed = le_word (take 4 (drop 8 r)),
                       Direction = le_word (take 4 (drop 12 r)),
                       Width = le_word (take 4 (drop 16 r)),
                       Pressure = le_word (take 4 (drop 20 r))\<rparr>]
                else points)
               (drop 24 r)"
  using assms
  by (subst tryParseStroke_loop.simps) (simp add: binary_Read_u32_ok Let_def)

lemma tryParseStroke_loop_stop:
  "\<not> (i < pointCount \<and> 24 \<le> length r) \<Longrightarrow> tryParseStroke_loop pointCount i points r = (points, r)"
  by (subst tryParseStroke_loop.simps) auto

lemma tryParseStroke_loop_len:
  "tryParseStroke_loop pointCount i points r = (points', r') \<Longrightarrow> length r' \<le> length r"
proof (induction "pointCount - i" arbitrary: i points r)
  case 0
  then show ?case by (simp add: tryParseStroke_loop_stop)
next
  case (Suc n)
  show ?case
  proof (cases "i < pointCount \<and> 24 \<le> length r")
    case False
    with Suc.prems show ?thesis by (simp add: tryParseStroke_loop_stop)
  next
    case True
    then obtain pts where "tryParseStroke_loop pointCount i points r
           = tryParseStroke_loop pointCount (i + 1) pts (drop 24 r)"
      using tryParseStroke_loop_step by metis
    with Suc.prems have "tryParseStroke_loop pointCount (i + 1) pts (drop 24 r) = (points', r')"
      by simp
    moreover have "n = pointCount - (i + 1)" using Suc.hyps(2) by simp
    ultimately have "length r' \<le> length (drop 24 r)" using Suc.hyps(1) by blast
    then show ?thesis by simp
  qed
qed

lemma tryParseStroke_short: "length r < 20 \<Longrightarrow> tryParseStroke r = (Inl NotEnoughData, r)"
  by (simp add: tryParseStroke_def)

lemma tryParseStroke_cases:
  assumes "20 \<le> length r"
  shows "tryParseStroke r = (Inl InvalidStrokeParameters, drop 16 r)
       \<or> (\<exists>st r'. tryParseStroke r = (Inr st, r') \<and> length r' + 16 \<le> length r)"
proof -
  obtain points r' where loop: "tryParseStroke_loop (unat (le_word (take 4 (drop 12 r)) :: 32 word)) 0 [] (drop 16 r) = (points, r')"
    by fastforce
  then have "length r' \<le> length r - 16"
    using tryParseStroke_loop_len by fastforce
  then have "length r' + 16 \<le> length r" using assms by simp
  with loop assms show ?thesis
    by (simp add: tryParseStroke_def binary_Read_u32_ok andThen_def)
qed

text \<open>
  \<^verbatim>\<open>parseStrokeData\<close>: the loop \<^verbatim>\<open>for reader.Len() > 0\<close>. When \<^verbatim>\<open>tryParseStroke\<close> fails the
  reader is moved one byte on from where the failed attempt left it
  (\<^verbatim>\<open>reader.Seek(1, io.SeekCurrent)\<close>) and the loop continues. The stroke pointer is never
  nil on success; a stroke is appended when it has at least one point.
\<close>

function parseStrokeData_loop :: "reader \<Rightarrow> Stroke list \<Rightarrow> Stroke list" where
  "parseStrokeData_loop r strokes =
     (if length r > 0 then
        (case tryParseStroke r of
           (Inl err, r') \<Rightarrow> parseStrokeData_loop (drop 1 r') strokes
         | (Inr stroke, r') \<Rightarrow>
             parseStrokeData_loop r'
               (if length (Points stroke) > 0 then strokes @ [stroke] else strokes))
      else strokes)"
  by pat_completeness auto
termination
proof (relation "measure (\<lambda>(r, strokes). length r)")
  show "wf (measure (\<lambda>(r, strokes). length r))"
    by simp
next
  fix r :: reader and strokes :: "Stroke list" and x r' err
  assume nonempty: "0 < length r" and res: "(x, r') = tryParseStroke r" "x = Inl err"
  have "length r' \<le> length r"
    using res tryParseStroke_short [of r] tryParseStroke_cases [of r]
    by (cases "length r < 20") auto
  with nonempty have "length (drop 1 r') < length r"
    by (cases r') auto
  then show "((drop 1 r', strokes), (r, strokes)) \<in> measure (\<lambda>(r, strokes). length r)"
    by simp
next
  fix r :: reader and strokes :: "Stroke list" and x r' stroke
  assume nonempty: "0 < length r" and res: "(x, r') = tryParseStroke r" "x = Inr stroke"
  have "length r' < length r"
    using res tryParseStroke_short [of r] tryParseStroke_cases [of r]
    by (cases "length r < 20") auto
  then show "((r', if 0 < length (Points stroke) then strokes @ [stroke] else strokes), (r, strokes))
      \<in> measure (\<lambda>(r, strokes). length r)"
    by simp
qed

declare parseStrokeData_loop.simps [simp del]

text \<open>\<^verbatim>\<open>parseStrokeData\<close> returns \<^verbatim>\<open>nil\<close> on every path; the page gets the strokes found.\<close>

definition parseStrokeData :: "byte list \<Rightarrow> Page \<Rightarrow> Page \<times> error option" where
  "parseStrokeData data page =
     (page\<lparr>Strokes := parseStrokeData_loop data (Strokes page)\<rparr>, None)"

text \<open>
  \<^verbatim>\<open>parseStrokesSimplified\<close> reads everything that is left (\<^verbatim>\<open>io.ReadAll\<close>, which does not
  fail on an in-memory stream) and scans it.
\<close>

definition parseStrokesSimplified :: "reader \<Rightarrow> Page \<Rightarrow> Page \<times> error option" where
  "parseStrokesSimplified buf page = parseStrokeData buf page"

text \<open>
  \<^verbatim>\<open>ParseRM\<close>, on the bytes that its \<^verbatim>\<open>io.Reader\<close> delivers. The 43 header bytes are read
  with \<^verbatim>\<open>io.ReadFull\<close>; the comparison is between \<^verbatim>\<open>header[:len(rmHeader)]\<close> and the
  33-byte literal. An error of the scan is only printed: the page is returned in either
  case. The page dimensions 1404 and 1872 are the \<^verbatim>\<open>float32\<close> patterns
  \<open>0x44AF8000\<close> and \<open>0x44EA0000\<close>.
\<close>

definition ParseRM :: "byte list \<Rightarrow> error + Page" where
  "ParseRM input =
     (case ReadFull (make_bytes rmHeaderSize) input of
        ((header, Some err), buf) \<Rightarrow> Inl (FailedToReadHeader err)
      | ((header, None), buf) \<Rightarrow>
          let headerStr = take (length rmHeader) header
          in if headerStr \<noteq> rmHeader then Inl InvalidHeader
             else
               let page = \<lparr>Width = 0x44AF8000, Height = 0x44EA0000, Strokes = []\<rparr>
               in (case parseStrokesSimplified buf page of (page, err) \<Rightarrow> Inr page))"

section \<open>Auxiliary definitions for the statements\<close>

text \<open>The block that the eight header bytes at the front of a reader describe.\<close>

definition block_header :: "reader \<Rightarrow> V6Block" where
  "block_header r =
     \<lparr>BlockType = le_word (take 1 (drop 7 r)), MinVersion = le_word (take 1 (drop 5 r)),
      CurrentVersion = le_word (take 1 (drop 6 r)), Size = le_word (take 4 r), Data = []\<rparr>"

text \<open>
  The header literals of the two older dialects, as the format notes of the repository
  give them (\<^verbatim>\<open>FORMAT_SUPPORT.md\<close>); they only serve to say that an input starts with none
  of the three.
\<close>

definition HeaderV3 :: "byte list" where
  "HeaderV3 = bytes_of ''reMarkable .lines file, version=3          ''"

definition HeaderV5 :: "byte list" where
  "HeaderV5 = bytes_of ''reMarkable .lines file, version=5          ''"

text \<open>
  An instance of the conversion parameters for the closed statements below. None of their
  inputs holds a NaN, an infinity or a value beyond 32 bits, so the instance is never
  consulted.
\<close>

definition sample_conv :: float_conv where
  "sample_conv = \<lparr>indefinite_uint16 = (\<lambda>_. 0), indefinite_uint8 = (\<lambda>_. 0)\<rparr>"

text \<open>
  A stream that consists of complete blocks: each eight-byte header is followed by at
  least as many bytes as it declares.
\<close>

function whole_blocks :: "reader \<Rightarrow> bool" where
  "whole_blocks r =
     (if length r = 0 then True
      else if length r < 8 then False
      else let n = unat (le_word (take 4 r) :: 32 word)
           in if length r - 8 < n then False else whole_blocks (drop (8 + n) r))"
  by pat_completeness auto
termination
  by (relation "measure length") auto

declare whole_blocks.simps [simp del]

text \<open>
  A read is \<open>framed\<close> when a successful run is not affected by bytes appended to the
  input: it returns the same value and leaves the appended bytes unread.
\<close>

definition framed :: "(reader \<Rightarrow> (error + 'a) \<times> reader) \<Rightarrow> bool" where
  "framed f = (\<forall>xs ys a r'. f xs = (Inr a, r') \<longrightarrow> f (xs @ ys) = (Inr a, r' @ ys))"

text \<open>
  Modelled from the spec: the standard base-128 encoding of an unsigned integer, seven bits
  per byte, least significant group first, the top bit set on every byte but the last. The
  repository has no encoder; this one only serves to state what the reader returns on
  standard encodings.
\<close>

function putUvarint :: "nat \<Rightarrow> byte list" where
  "putUvarint n =
     (if n < 128 then [of_nat n] else of_nat (n mod 128 + 128) # putUvarint (n div 128))"
  by pat_completeness auto
termination
  by (relation "measure id") auto

declare putUvarint.simps [simp del]

section \<open>Example inputs\<close>

text \<open>
  Seventeen bytes that do not start a stroke record, followed by the 40 bytes of a stroke
  record with tool 0, colour 0, width 0.0 and one point at the origin.
\<close>

definition junk_then_stroke :: "byte list" where
  "junk_then_stroke =
     [0xFF, 0xFF, 0xFF, 0xFF, 0xFF, 0xFF, 0xFF, 0xFF,
      0xFF, 0xFF, 0xFF, 0xFF, 0xFF, 0xFF, 0xFF, 0xFF, 0xFF,
      0, 0, 0, 0,  0, 0, 0, 0,  0, 0, 0, 0,  1, 0, 0, 0,
      0, 0, 0, 0,  0, 0, 0, 0,  0, 0, 0, 0,  0, 0, 0, 0,  0, 0, 0, 0,  0, 0, 0, 0]"

definition origin_stroke :: Stroke where
  "origin_stroke =
     \<lparr>Tool = 0, Color = 0, Width = 0,
      Points = [\<lparr>X = 0, Y = 0, Speed = 0, Direction = 0, Width = 0, Pressure = 0\<rparr>]\<rparr>"

text \<open>The 33 bytes of the V6 literal followed by ten bytes that are not spaces.\<close>

definition unpadded_header :: "byte list" where
  "unpadded_header = bytes_of ''reMarkable .lines file, version=6XXXXXXXXXX''"

text \<open>
  The payload of a scene item that is not deleted and holds one line: tool 4, colour 0,
  thickness scale 2.0, and one version-2 point at (100, 200). The first 17 bytes are the
  four identifiers and the deleted length; the line data start at byte 23.
\<close>

definition line_payload :: "byte list" where
  "line_payload =
     [0x1F, 0x00, 0x0B,  0x2F, 0x01, 0x10,  0x3F, 0x00, 0x00,  0x4F, 0x00, 0x00,
      0x54, 0, 0, 0, 0,
      0x6C, 44, 0, 0, 0,
      0x03,
      0x14, 4, 0, 0, 0,
      0x24, 0, 0, 0, 0,
      0x38, 0, 0, 0, 0, 0, 0, 0, 0x40,
      0x44, 0, 0, 0, 0,
      0x5C, 14, 0, 0, 0,
      0x00, 0x00, 0xC8, 0x42,  0x00, 0x00, 0x48, 0x43,  8, 0,  16, 0,  0,  128]"

definition example_line :: V6Line where
  "example_line =
     \<lparr>V6Line.Color = 0, V6Line.Tool = 4,
      V6Line.Points = [\<lparr>V6Point.X = 0x42C80000, V6Point.Y = 0x43480000, V6Point.Speed = 8,
                 V6Point.Width = 16, V6Point.Direction = 0, V6Point.Pressure = 128\<rparr>],
      ThicknessScale = 0x4000000000000000, StartingLength = 0\<rparr>"

text \<open>The identifiers of a scene item followed by a deleted length of 1.\<close>

definition tombstone_links :: "byte list" where
  "tombstone_links =
     [0x1F, 0x00, 0x0B,  0x2F, 0x01, 0x10,  0x3F, 0x00, 0x00,  0x4F, 0x00, 0x00,
      0x54, 1, 0, 0, 0]"

text \<open>
  Two scene item blocks with their eight-byte headers, and the blocks they are read as:
  the one-line item above, and an item whose one-byte payload starts with the tag of
  index 2 where index 1 is expected.
\<close>

definition line_block :: "byte list" where
  "line_block = [66, 0, 0, 0,  0,  1,  2,  5] @ line_payload"

definition line_block_parsed :: V6Block where
  "line_block_parsed =
     \<lparr>BlockType = 5, MinVersion = 1, CurrentVersion = 2, Size = 66, Data = line_payload\<rparr>"

definition bad_block :: "byte list" where
  "bad_block = [1, 0, 0, 0,  0,  1,  2,  5,  0x2F]"

definition bad_block_parsed :: V6Block where
  "bad_block_parsed =
     \<lparr>BlockType = 5, MinVersion = 1, CurrentVersion = 2, Size = 1, Data = [0x2F]\<rparr>"

text \<open>
  The one-line payload again, with a points subblock that declares 15 bytes, one more than
  a version-2 point, and holds them; and its block.
\<close>

definition ragged_payload :: "byte list" where
  "ragged_payload =
     [0x1F, 0x00, 0x0B,  0x2F, 0x01, 0x10,  0x3F, 0x00, 0x00,  0x4F, 0x00, 0x00,
      0x54, 0, 0, 0, 0,
      0x6C, 45, 0, 0, 0,
      0x03,
      0x14, 4, 0, 0, 0,
      0x24, 0, 0, 0, 0,
      0x38, 0, 0, 0, 0, 0, 0, 0, 0x40,
      0x44, 0, 0, 0, 0,
      0x5C, 15, 0, 0, 0,
      0x00, 0x00, 0xC8, 0x42,  0x00, 0x00, 0x48, 0x43,  8, 0,  16, 0,  0,  128,  0xAA]"

definition ragged_block :: "byte list" where
  "ragged_block = [67, 0, 0, 0,  0,  1,  2,  5] @ ragged_payload"

definition ragged_block_parsed :: V6Block where
  "ragged_block_parsed =
     \<lparr>BlockType = 5, MinVersion = 1, CurrentVersion = 2, Size = 67, Data = ragged_payload\<rparr>"

definition example_fields :: V6Line where
  "example_fields =
     \<lparr>V6Line.Color = 0, V6Line.Tool = 4, V6Line.Points = [],
      ThicknessScale = 0x4000000000000000, StartingLength = 0\<rparr>"

text \<open>
  A block header that declares a payload of \<open>2 ^ 32 - 1\<close> bytes, with nothing after it.
\<close>

definition huge_header :: "byte list" where
  "huge_header = [0xFF, 0xFF, 0xFF, 0xFF,  0,  1,  1,  0]"

text \<open>
  A point in the 24-byte layout of version 1: x = 100, y = 200, speed = 20000,
  direction = 3.14159, width = 3 and pressure = 1, each a little-endian \<^verbatim>\<open>float32\<close>.
\<close>

definition version_1_point :: "byte list" where
  "version_1_point =
     [0x00, 0x00, 0xC8, 0x42,  0x00, 0x00, 0x48, 0x43,
      0x00, 0x40, 0x9C, 0x46,  0xD0, 0x0F, 0x49, 0x40,
      0x00, 0x00, 0x40, 0x40,  0x00, 0x00, 0x80, 0x3F]"

section \<open>Properties of the variable-length integer reader\<close>

text \<open>
  On the standard encoding of a value below \<open>2 ^ 64\<close> the reader returns that value and
  leaves what follows the encoding unread.
\<close>

lemma and_7F: "(b :: byte) AND 0x7F = take_bit 7 b"
  by (simp add: take_bit_eq_mask mask_eq_exp_minus_1)

lemma and_80: "(b :: byte) AND 0x80 = 0 \<longleftrightarrow> \<not> bit b 7"
  using bit_iff_and_push_bit_not_eq_0 [of b 7] by simp

lemma or_groups: "push_bit sh (of_nat (n mod 128)) OR push_bit (sh + 7) (of_nat (n div 128))
    = (push_bit sh (of_nat n) :: 64 word)"
proof (rule bit_eqI)
  fix k
  have split: "n mod 128 = take_bit 7 n" "n div 128 = drop_bit 7 n"
    by (simp_all add: take_bit_eq_mod drop_bit_eq_div)
  have shift: "7 + (k - (sh + 7)) = k - sh" if "sh + 7 \<le> k"
    using that by simp
  show "bit (push_bit sh (of_nat (n mod 128)) OR push_bit (sh + 7) (of_nat (n div 128)) :: 64 word) k
      = bit (push_bit sh (of_nat n) :: 64 word) k"
    unfolding split
    by (cases "sh + 7 \<le> k") (auto simp: bit_simps shift)
qed

lemma byte_low:
  assumes "n < 128"
  shows "take_bit 7 (of_nat n :: byte) = of_nat n" "\<not> bit (of_nat n :: byte) 7"
    "(ucast (of_nat n :: byte) :: 64 word) = of_nat n"
proof -
  have n: "take_bit 7 n = n" "take_bit 8 n = n"
    using assms by (simp_all add: take_bit_nat_eq_self_iff)
  show "take_bit 7 (of_nat n :: byte) = of_nat n"
    using n(1) by (metis of_nat_take_bit)
  show "\<not> bit (of_nat n :: byte) 7"
    using n(1) by (metis bit_of_nat_iff bit_take_bit_iff less_irrefl)
  show "(ucast (of_nat n :: byte) :: 64 word) = of_nat n"
    using n(2) by (simp add: unsigned_of_nat)
qed

lemma byte_high:
  shows "take_bit 7 (of_nat (n mod 128 + 128) :: byte) = of_nat (n mod 128)"
    "bit (of_nat (n mod 128 + 128) :: byte) 7"
    "(ucast (of_nat (n mod 128) :: byte) :: 64 word) = of_nat (n mod 128)"
proof -
  have "take_bit 7 (n mod 128 + 128) = n mod 128"
    by (simp add: take_bit_eq_mod)
  then show "take_bit 7 (of_nat (n mod 128 + 128) :: byte) = of_nat (n mod 128)"
    by (metis of_nat_take_bit)
  have "(n mod 128 + 128) div 2 ^ 7 = 1"
    by simp
  then have high: "bit (n mod 128 + 128) 7"
    unfolding bit_iff_odd by simp
  show "bit (of_nat (n mod 128 + 128) :: byte) 7"
    by (subst bit_of_nat_iff) (simp add: high)
  have "take_bit 8 (n mod 128) = n mod 128"
    by (simp add: take_bit_nat_eq_self_iff less_trans [OF mod_less_divisor])
  then show "(ucast (of_nat (n mod 128) :: byte) :: 64 word) = of_nat (n mod 128)"
    by (simp add: unsigned_of_nat)
qed

lemma readVarint_loop_putUvarint:
  "n < 2 ^ (64 - shift) \<Longrightarrow> shift < 64 \<Longrightarrow>
   readVarint_loop result shift (putUvarint n @ rest)
     = (Inr (result OR push_bit shift (of_nat n)), rest)"
proof (induction n arbitrary: result shift rule: putUvarint.induct)
  case (1 n)
  show ?case
  proof (cases "n < 128")
    case True
    then show ?thesis
      by (subst putUvarint.simps) (simp add: and_7F and_80 byte_low)
  next
    case False
    have "2 ^ 7 \<le> n" using False by simp
    also have "n < 2 ^ (64 - shift)" by (rule "1.prems"(1))
    finally have "(2 :: nat) ^ 7 < 2 ^ (64 - shift)" .
    then have "7 < 64 - shift"
      by (rule power_less_imp_less_exp [rotated]) simp
    then have shift: "shift + 7 < 64"
      by simp
    have "n div 128 < 2 ^ (64 - (shift + 7))"
    proof -
      have "64 - shift = (64 - (shift + 7)) + 7"
        using shift by simp
      then have "(2 :: nat) ^ (64 - shift) = 2 ^ (64 - (shift + 7)) * 2 ^ 7"
        by (simp only: power_add)
      with "1.prems"(1) have "n < 2 ^ (64 - (shift + 7)) * 128"
        by simp
      then show ?thesis
        by (rule less_mult_imp_div_less)
    qed
    from "1.IH" [OF False this shift]
    have IH: "readVarint_loop res (shift + 7) (putUvarint (n div 128) @ rest)
        = (Inr (res OR push_bit (shift + 7) (of_nat (n div 128))), rest)" for res
      by simp
    define b :: byte where "b = of_nat (n mod 128 + 128)"
    have enc: "putUvarint n = b # putUvarint (n div 128)"
      using False by (subst putUvarint.simps) (simp add: b_def)
    have b: "take_bit 7 b = of_nat (n mod 128)" "bit b 7"
      unfolding b_def by (rule byte_high)+
    have low: "(ucast (of_nat (n mod 128) :: byte) :: 64 word) = of_nat (n mod 128)"
      by (rule byte_high(3))
    show ?thesis
      unfolding enc using shift
      by (simp add: and_7F and_80 b low IH Let_def or.assoc or_groups)
  qed
qed

lemma readVarint_roundtrip:
  "n < 2 ^ 64 \<Longrightarrow> readVarint (putUvarint n @ rest) = (Inr (of_nat n), rest)"
  using readVarint_loop_putUvarint [of n 0 0 rest] by (simp add: readVarint_def)

text \<open>
  C8. The reader accumulates seven bits per byte, least significant group first, and
  reports an overflow when a continuation bit asks for a group at shift 64 or beyond: the
  eleven-byte sequence below fails with the overflow error. A ten-byte sequence whose last
  byte carries bits beyond bit 63 is not rejected, however: the tenth group is shifted by
  63, only its lowest bit survives, and the reader returns without error. The sequence
  \<open>80 80 80 80 80 80 80 80 80 02\<close> denotes \<open>2 ^ 64\<close> and is read as 0.
\<close>

theorem readVarint_ten_bytes_truncates:
  "readVarint [0x80, 0x80, 0x80, 0x80, 0x80, 0x80, 0x80, 0x80, 0x80, 0x02] = (Inr 0, [])
   \<and> readVarint [0x80, 0x80, 0x80, 0x80, 0x80, 0x80, 0x80, 0x80, 0x80, 0x80, 0x00]
       = (Inl VarintOverflow, [0x00])"
  by (simp add: readVarint_def)


section \<open>Properties of the stroke scanner\<close>

lemma tryParseStroke_junk:
  "tryParseStroke junk_then_stroke = (Inl InvalidStrokeParameters, drop 16 junk_then_stroke)"
  by (simp add: junk_then_stroke_def tryParseStroke_def binary_Read_u32_ok andThen_def le_word_def)

lemma tryParseStroke_after_junk:
  "tryParseStroke (drop 17 junk_then_stroke) = (Inr origin_stroke, [])"
  by (simp add: junk_then_stroke_def origin_stroke_def tryParseStroke_def binary_Read_u32_ok
      andThen_def le_word_def f32_lt_def f32_gt_def f32_ge_def f32_le_def f32_isNaN_def
      f32_val_def tryParseStroke_loop_step tryParseStroke_loop_stop)

lemma parseStrokeData_loop_junk:
  "parseStrokeData_loop junk_then_stroke [] = [origin_stroke]"
proof -
  have "parseStrokeData_loop junk_then_stroke []
      = parseStrokeData_loop (drop 17 junk_then_stroke) []"
    by (subst parseStrokeData_loop.simps) (simp add: tryParseStroke_junk, simp add: junk_then_stroke_def)
  also have "\<dots> = parseStrokeData_loop [] [origin_stroke]"
    by (subst parseStrokeData_loop.simps)
      (simp add: tryParseStroke_after_junk, simp add: junk_then_stroke_def origin_stroke_def)
  also have "\<dots> = [origin_stroke]"
    by (subst parseStrokeData_loop.simps) simp
  finally show ?thesis .
qed

text \<open>
  C1, as stated, fails. The attempt at the first byte of \<open>junk_then_stroke\<close> fails, with the
  reader 16 bytes further on; the scan does not stop there but goes on at byte 17, and the
  page that \<^verbatim>\<open>ParseRM\<close> returns holds a stroke assembled from the bytes after the failed
  attempt.
\<close>

theorem parseStrokeData_resync_counterexample:
  "tryParseStroke junk_then_stroke = (Inl InvalidStrokeParameters, drop 16 junk_then_stroke)
   \<and> ParseRM (HeaderV6 @ junk_then_stroke)
       = Inr \<lparr>Width = 0x44AF8000, Height = 0x44EA0000, Strokes = [origin_stroke]\<rparr>"
  by (simp add: tryParseStroke_junk ParseRM_def ReadFull_def make_bytes_def rmHeaderSize_def
      HeaderV6_def rmHeader_def bytes_of_def parseStrokesSimplified_def parseStrokeData_def
      parseStrokeData_loop_junk)

text \<open>
  C1, amended. A failed attempt does not end the scan: the reader is moved one byte on
  from where the attempt left it, which is the place of the attempt itself when fewer than
  20 bytes were left and 16 bytes after it when the stroke header was read and rejected, and
  the scan continues there with the strokes found so far. The scan never reports an error.
\<close>

theorem parseStrokeData_resumes_after_failure:
  assumes "0 < length r" and "tryParseStroke r = (Inl err, r')"
  shows "parseStrokeData_loop r strokes = parseStrokeData_loop (drop 1 r') strokes
       \<and> (r' = r \<or> r' = drop 16 r)
       \<and> (length r < 20 \<longrightarrow> err = NotEnoughData \<and> r' = r)
       \<and> (20 \<le> length r \<longrightarrow> err = InvalidStrokeParameters \<and> r' = drop 16 r)
       \<and> snd (parseStrokeData data page) = None"
proof -
  have "parseStrokeData_loop r strokes = parseStrokeData_loop (drop 1 r') strokes"
    using assms by (subst parseStrokeData_loop.simps) simp
  moreover have short: "err = NotEnoughData \<and> r' = r" if "length r < 20"
    using assms(2) tryParseStroke_short [OF that] by simp
  moreover have long: "err = InvalidStrokeParameters \<and> r' = drop 16 r" if "20 \<le> length r"
    using assms(2) tryParseStroke_cases [OF that] by auto
  moreover have "r' = r \<or> r' = drop 16 r"
    using short long by (cases "length r < 20") auto
  moreover have "snd (parseStrokeData data page) = None"
    by (simp add: parseStrokeData_def)
  ultimately show ?thesis by blast
qed

theorem parseStrokeData_resumes_after_failure_witness:
  "0 < length junk_then_stroke \<and> 20 \<le> length junk_then_stroke
   \<and> tryParseStroke junk_then_stroke = (Inl InvalidStrokeParameters, drop 16 junk_then_stroke)
   \<and> parseStrokeData_loop junk_then_stroke []
       = parseStrokeData_loop (drop 1 (drop 16 junk_then_stroke)) []
   \<and> 0 < length (drop 40 junk_then_stroke) \<and> length (drop 40 junk_then_stroke) < 20
   \<and> tryParseStroke (drop 40 junk_then_stroke) = (Inl NotEnoughData, drop 40 junk_then_stroke)
   \<and> parseStrokeData_loop (drop 40 junk_then_stroke) []
       = parseStrokeData_loop (drop 1 (drop 40 junk_then_stroke)) []
   \<and> snd (parseStrokeData [] \<lparr>Width = 0, Height = 0, Strokes = []\<rparr>) = None"
proof -
  have nonempty: "0 < length junk_then_stroke" "0 < length (drop 40 junk_then_stroke)"
    by (simp_all add: junk_then_stroke_def)
  have lengths: "20 \<le> length junk_then_stroke" "length (drop 40 junk_then_stroke) < 20"
    by (simp_all add: junk_then_stroke_def)
  have short: "tryParseStroke (drop 40 junk_then_stroke)
      = (Inl NotEnoughData, drop 40 junk_then_stroke)"
    by (rule tryParseStroke_short [OF lengths(2)])
  note long = parseStrokeData_resumes_after_failure [OF nonempty(1) tryParseStroke_junk,
      of "[]" "[]" "\<lparr>Width = 0, Height = 0, Strokes = []\<rparr>"]
  note tail = parseStrokeData_resumes_after_failure [OF nonempty(2) short,
      of "[]" "[]" "\<lparr>Width = 0, Height = 0, Strokes = []\<rparr>"]
  from long have a: "parseStrokeData_loop junk_then_stroke []
       = parseStrokeData_loop (drop 1 (drop 16 junk_then_stroke)) []"
    and e: "snd (parseStrokeData [] \<lparr>Width = 0, Height = 0, Strokes = []\<rparr>) = None"
    by blast+
  from tail have b: "parseStrokeData_loop (drop 40 junk_then_stroke) []
       = parseStrokeData_loop (drop 1 (drop 40 junk_then_stroke)) []"
    by blast
  from nonempty lengths tryParseStroke_junk short a b e show ?thesis
    by blast
qed

section \<open>Properties of the block stream\<close>

lemma ReadFull_error:
  "ReadFull buf r = ((b, Some e), r') \<Longrightarrow> e = EOF \<or> e = ErrUnexpectedEOF"
  by (auto simp: ReadFull_def split: if_splits)

lemma binary_Read_u32_error:
  "binary_Read_u32 r = (Inl e, r') \<Longrightarrow> e = EOF \<or> e = ErrUnexpectedEOF"
  by (cases "4 \<le> length r") (auto simp: binary_Read_u32_ok binary_Read_u32_short split: if_splits)

lemma binary_Read_u8_error:
  "binary_Read_u8 r = (Inl e, r') \<Longrightarrow> e = EOF"
  by (cases r) (auto simp: binary_Read_u8_ok binary_Read_u8_short)

lemma parseV6Block_tiny:
  "length r < 4 \<Longrightarrow>
   parseV6Block r = ((zero_block, Some (if r = [] then EOF else ErrUnexpectedEOF)), [])"
  by (simp add: parseV6Block_def binary_Read_u32_short)

lemma parseV6Block_short_header:
  assumes "4 \<le> length r" "length r < 8"
  shows "\<exists>b. parseV6Block r = ((b, Some EOF), [])"
proof -
  have "length r = 4 \<or> length r = 5 \<or> length r = 6 \<or> length r = 7"
    using assms by arith
  then show ?thesis
    by (elim disjE)
      (simp_all add: parseV6Block_def binary_Read_u32_ok binary_Read_u8_ok binary_Read_u8_short)
qed

lemma parseV6Block_header:
  assumes "8 \<le> length r"
  shows "parseV6Block r =
     (let b = block_header r; n = unat (Size b)
      in if n = 0 then ((b, None), drop 8 r)
         else if length r = 8 then ((b\<lparr>Data := make_bytes n\<rparr>, Some EOF), [])
         else if length r - 8 < n
           then ((b\<lparr>Data := drop 8 r @ drop (length r - 8) (make_bytes n)\<rparr>,
                  Some ErrUnexpectedEOF), [])
         else ((b\<lparr>Data := take n (drop 8 r)\<rparr>, None), drop (8 + n) r))"
  using assms
  by (simp add: parseV6Block_def binary_Read_u32_ok binary_Read_u8_ok block_header_def
      zero_block_def ReadFull_def make_bytes_def Let_def unat_eq_0 unat_gt_0 word_greater_zero_iff add.commute)

lemma parseV6Block_error:
  "parseV6Block r = ((b, Some e), r') \<Longrightarrow> e = EOF \<or> e = ErrUnexpectedEOF"
  using parseV6Block_tiny [of r] parseV6Block_short_header [of r] parseV6Block_header [of r]
  by (cases "length r < 4"; cases "length r < 8") (auto simp: Let_def split: if_splits)

lemma parseV6Blocks_loop_error:
  "parseV6Blocks_loop r blocks = (bs, Some e) \<Longrightarrow> e = ErrUnexpectedEOF"
proof (induction r blocks rule: parseV6Blocks_loop.induct)
  case (1 r blocks)
  show ?case
  proof (cases "0 < length r")
    case False
    with "1.prems" show ?thesis by (subst (asm) parseV6Blocks_loop.simps) simp
  next
    case True
    obtain b eo r' where step: "parseV6Block r = ((b, eo), r')"
      by (metis surj_pair)
    show ?thesis
    proof (cases eo)
      case None
      with step True "1.prems" have "parseV6Blocks_loop r' (blocks @ [b]) = (bs, Some e)"
        by (subst (asm) parseV6Blocks_loop.simps) simp
      with "1.IH" [OF True step [symmetric] refl None] show ?thesis by simp
    next
      case (Some err)
      with step True "1.prems" parseV6Block_error [of r b err r'] show ?thesis
        by (subst (asm) parseV6Blocks_loop.simps) (auto split: if_splits)
    qed
  qed
qed

lemma length_make_bytes: "length (make_bytes n) = n"
  by (simp add: make_bytes_def)

lemma Size_block_header: "Size (block_header r) = le_word (take 4 r)"
  by (simp add: block_header_def)

lemma block_header_append: "8 \<le> length xs \<Longrightarrow> block_header (xs @ ys) = block_header xs"
  by (simp add: block_header_def)

lemma parseV6Blocks_loop_stop: "parseV6Blocks_loop [] acc = (acc, None)"
  by (simp add: parseV6Blocks_loop.simps)

lemma parseV6Blocks_loop_ok:
  "r \<noteq> [] \<Longrightarrow> parseV6Block r = ((b, None), r')
   \<Longrightarrow> parseV6Blocks_loop r acc = parseV6Blocks_loop r' (acc @ [b])"
  by (subst parseV6Blocks_loop.simps) simp

lemma parseV6Blocks_loop_err:
  "r \<noteq> [] \<Longrightarrow> parseV6Block r = ((b, Some err), r')
   \<Longrightarrow> parseV6Blocks_loop r acc = (acc, if err = EOF then None else Some err)"
  by (subst parseV6Blocks_loop.simps) simp

lemma parseV6Blocks_loop_acc:
  "parseV6Blocks_loop r acc
     = (acc @ fst (parseV6Blocks_loop r []), snd (parseV6Blocks_loop r []))"
proof (induction "length r" arbitrary: r acc rule: less_induct)
  case less
  show ?case
  proof (cases "r = []")
    case True
    then show ?thesis by (simp add: parseV6Blocks_loop_stop)
  next
    case False
    obtain b eo r' where step: "parseV6Block r = ((b, eo), r')"
      by (metis surj_pair)
    show ?thesis
    proof (cases eo)
      case None
      then have shorter: "length r' < length r"
        using step parseV6Block_ok_len by fastforce
      have "parseV6Blocks_loop r acc = parseV6Blocks_loop r' (acc @ [b])"
        and "parseV6Blocks_loop r [] = parseV6Blocks_loop r' [b]"
        using False step None parseV6Blocks_loop_ok by fastforce+
      moreover have "parseV6Blocks_loop r' (acc @ [b])
          = ((acc @ [b]) @ fst (parseV6Blocks_loop r' []), snd (parseV6Blocks_loop r' []))"
        using less [OF shorter] .
      moreover have "parseV6Blocks_loop r' [b]
          = ([b] @ fst (parseV6Blocks_loop r' []), snd (parseV6Blocks_loop r' []))"
        using less [OF shorter] .
      ultimately show ?thesis by simp
    next
      case (Some err)
      then show ?thesis
        using False step by (simp add: parseV6Blocks_loop_err)
    qed
  qed
qed

text \<open>A stream of whole blocks is read to its end, and what follows it is read next.\<close>

lemma block_header_Data: "(block_header r)\<lparr>Data := []\<rparr> = block_header r"
  by (simp add: block_header_def)

lemma parseV6Block_whole:
  assumes "8 \<le> length r" "\<not> length r - 8 < unat (le_word (take 4 r) :: 32 word)"
  shows "parseV6Block (r @ rest) =
     (((block_header r)\<lparr>Data := take (unat (Size (block_header r))) (drop 8 r)\<rparr>, None),
      drop (8 + unat (Size (block_header r))) r @ rest)"
proof -
  define n where "n = unat (le_word (take 4 r) :: 32 word)"
  have hdr: "block_header (r @ rest) = block_header r"
    using assms(1) by (rule block_header_append)
  have n: "unat (Size (block_header r)) = n"
    by (simp add: n_def Size_block_header)
  have fits: "n + 8 \<le> length r"
    using assms by (simp add: n_def)
  show ?thesis
  proof (cases "n = 0")
    case True
    then show ?thesis
      using assms(1) parseV6Block_header [of "r @ rest"]
      by (simp add: hdr n block_header_Data Let_def)
  next
    case False
    with fits have "length (r @ rest) \<noteq> 8" "\<not> length (r @ rest) - 8 < n"
      by simp_all
    moreover have "take n (drop 8 (r @ rest)) = take n (drop 8 r)"
      using fits by simp
    moreover have "drop (8 + n) (r @ rest) = drop (8 + n) r @ rest"
      using fits by simp
    ultimately show ?thesis
      using assms(1) False parseV6Block_header [of "r @ rest"]
      by (simp add: hdr n Let_def del: length_append drop_append take_append)
  qed
qed

lemma whole_blocks_loop:
  "whole_blocks pre \<Longrightarrow>
   parseV6Blocks_loop (pre @ rest) acc
     = parseV6Blocks_loop rest (acc @ fst (parseV6Blocks_loop pre []))
   \<and> snd (parseV6Blocks_loop pre []) = None"
proof (induction pre arbitrary: acc rule: whole_blocks.induct)
  case (1 r)
  show ?case
  proof (cases "r = []")
    case True
    then show ?thesis by (simp add: parseV6Blocks_loop_stop)
  next
    case False
    define n where "n = unat (le_word (take 4 r) :: 32 word)"
    from "1.prems" False have len: "8 \<le> length r" "\<not> length r - 8 < n"
      and rest_whole: "whole_blocks (drop (8 + n) r)"
      by (subst (asm) whole_blocks.simps, simp add: n_def Let_def split: if_splits)+
    define b where "b = (block_header r)\<lparr>Data := take n (drop 8 r)\<rparr>"
    have step: "parseV6Block (r @ xs) = ((b, None), drop (8 + n) r @ xs)" for xs
      using parseV6Block_whole [of r xs] len by (simp add: n_def b_def Size_block_header)
    have IH: "parseV6Blocks_loop (drop (8 + n) r @ rest) acc'
        = parseV6Blocks_loop rest (acc' @ fst (parseV6Blocks_loop (drop (8 + n) r) []))
        \<and> snd (parseV6Blocks_loop (drop (8 + n) r) []) = None" for acc'
      using "1.IH" [OF _ _ n_def _ rest_whole] False len by (simp add: n_def)
    have "parseV6Blocks_loop (r @ rest) acc = parseV6Blocks_loop (drop (8 + n) r @ rest) (acc @ [b])"
      using parseV6Blocks_loop_ok [OF _ step] False by simp
    moreover have "parseV6Blocks_loop r [] = parseV6Blocks_loop (drop (8 + n) r) [b]"
      using parseV6Blocks_loop_ok [OF False, of b "drop (8 + n) r" "[]"] step [of "[]"] by simp
    moreover have "parseV6Blocks_loop (drop (8 + n) r) [b]
       = ([b] @ fst (parseV6Blocks_loop (drop (8 + n) r) []), snd (parseV6Blocks_loop (drop (8 + n) r) []))"
      by (rule parseV6Blocks_loop_acc)
    ultimately show ?thesis using IH by simp
  qed
qed

section \<open>Properties of the header checks\<close>

lemma length_rmHeader: "length rmHeader = 33"
  by (simp add: rmHeader_def bytes_of_def)

lemma length_HeaderV6: "length HeaderV6 = 43"
  by (simp add: HeaderV6_def bytes_of_def)

lemma ParseRM_eq:
  "ParseRM input =
     (if length input < 43
      then Inl (FailedToReadHeader (if input = [] then EOF else ErrUnexpectedEOF))
      else if take 33 input \<noteq> rmHeader then Inl InvalidHeader
      else Inr \<lparr>Width = 0x44AF8000, Height = 0x44EA0000,
                Strokes = parseStrokeData_loop (drop 43 input) []\<rparr>)"
  by (simp add: ParseRM_def ReadFull_def make_bytes_def rmHeaderSize_def length_rmHeader
      parseStrokesSimplified_def parseStrokeData_def Let_def)

lemma ParseV6_error_after_header: "ParseV6 fc conv data = Inl e \<Longrightarrow> 43 \<le> length data \<Longrightarrow> take 43 data = HeaderV6 \<Longrightarrow> e = ErrUnexpectedEOF"
  by (auto simp: ParseV6_def HeaderLen_def parseV6Blocks_def split: prod.splits option.splits dest: parseV6Blocks_loop_error)

lemma ParseV6_header_only:
  "ParseV6 fc conv HeaderV6 = Inr \<lparr>Version = V6, Layers = [\<lparr>Lines = []\<rparr>]\<rparr>"
  by (simp add: ParseV6_def HeaderLen_def length_HeaderV6 parseV6Blocks_def
      parseV6Blocks_loop.simps extractLinesFromV6Blocks_def)

text \<open>
  C3, as stated, fails for \<^verbatim>\<open>ParseRM\<close>. The first 43 bytes of \<open>unpadded_header\<close> are
  none of the three header literals, since the ten padding positions hold \<open>X\<close>, and
  \<^verbatim>\<open>ParseRM\<close> accepts the input and returns a page.
\<close>

theorem ParseRM_partial_header_counterexample:
  "length unpadded_header = 43
   \<and> take 43 unpadded_header \<noteq> HeaderV3
   \<and> take 43 unpadded_header \<noteq> HeaderV5
   \<and> take 43 unpadded_header \<noteq> HeaderV6
   \<and> ParseRM unpadded_header = Inr \<lparr>Width = 0x44AF8000, Height = 0x44EA0000, Strokes = []\<rparr>"
  by (simp add: ParseRM_eq parseStrokeData_loop.simps unpadded_header_def HeaderV3_def
      HeaderV5_def HeaderV6_def rmHeader_def bytes_of_def)

text \<open>
  C3, amended. \<^verbatim>\<open>ParseV6\<close> goes on to the block parser only when the input has at least
  43 bytes and the first 43 are the V6 literal, byte for byte; it fails with "file too
  small" exactly on the shorter inputs and with "not a v6 file" exactly on the inputs of
  at least 43 bytes with any other prefix. \<^verbatim>\<open>ParseRM\<close> fails to read the header exactly
  on the inputs shorter than 43 bytes, and otherwise accepts exactly the inputs whose first
  33 bytes are the unpadded V6 literal: the ten padding bytes are not compared.
\<close>

theorem header_checks:
  "(ParseV6 fc conv data = Inl FileTooSmall \<longleftrightarrow> length data < 43)
   \<and> (ParseV6 fc conv data = Inl NotAV6File \<longleftrightarrow> 43 \<le> length data \<and> take 43 data \<noteq> HeaderV6)
   \<and> ((\<exists>rm. ParseV6 fc conv data = Inr rm) \<longrightarrow> 43 \<le> length data \<and> take 43 data = HeaderV6)
   \<and> ((\<exists>e. ParseRM data = Inl (FailedToReadHeader e)) \<longleftrightarrow> length data < 43)
   \<and> (ParseRM data = Inl InvalidHeader \<longleftrightarrow> 43 \<le> length data \<and> take 33 data \<noteq> rmHeader)
   \<and> ((\<exists>page. ParseRM data = Inr page) \<longleftrightarrow> 43 \<le> length data \<and> take 33 data = rmHeader)"
proof -
  have v6: "ParseV6 fc conv data \<noteq> Inl FileTooSmall \<and> ParseV6 fc conv data \<noteq> Inl NotAV6File"
    if "43 \<le> length data" "take 43 data = HeaderV6"
    using ParseV6_error_after_header [OF _ that] by auto
  have a: "ParseV6 fc conv data = Inl FileTooSmall \<longleftrightarrow> length data < 43"
    using v6 by (auto simp: ParseV6_def HeaderLen_def)
  have b: "ParseV6 fc conv data = Inl NotAV6File \<longleftrightarrow> 43 \<le> length data \<and> take 43 data \<noteq> HeaderV6"
    using v6 by (auto simp: ParseV6_def HeaderLen_def)
  have c: "(\<exists>rm. ParseV6 fc conv data = Inr rm) \<longrightarrow> 43 \<le> length data \<and> take 43 data = HeaderV6"
    by (auto simp: ParseV6_def HeaderLen_def split: if_splits)
  have d: "(\<exists>e. ParseRM data = Inl (FailedToReadHeader e)) \<longleftrightarrow> length data < 43"
    by (simp add: ParseRM_eq)
  have e: "ParseRM data = Inl InvalidHeader \<longleftrightarrow> 43 \<le> length data \<and> take 33 data \<noteq> rmHeader"
    by (auto simp: ParseRM_eq)
  have f: "(\<exists>page. ParseRM data = Inr page) \<longleftrightarrow> 43 \<le> length data \<and> take 33 data = rmHeader"
    by (auto simp: ParseRM_eq)
  from a b c d e f show ?thesis by blast
qed

theorem header_checks_witness:
  "(\<exists>rm. ParseV6 sample_conv (\<lambda>line. line) HeaderV6 = Inr rm)
   \<and> 43 \<le> length HeaderV6 \<and> take 43 HeaderV6 = HeaderV6
   \<and> (\<exists>page. ParseRM HeaderV6 = Inr page)"
proof -
  have "take 33 HeaderV6 = rmHeader"
    by (simp add: HeaderV6_def rmHeader_def bytes_of_def)
  then show ?thesis
    using header_checks [of sample_conv "\<lambda>line. line" HeaderV6]
      ParseV6_header_only [of sample_conv "\<lambda>line. line"]
    by (simp add: length_HeaderV6)
qed


section \<open>Properties of the scene item parser\<close>

subsection \<open>Evaluation on the example payload\<close>

lemma binary_Read_u16_ok:
  "2 \<le> length r \<Longrightarrow> binary_Read_u16 r = (Inr (le_word (take 2 r)), drop 2 r)"
  by (simp add: binary_Read_u16_def binary_Read_ok andThen_def)

lemma binary_Read_u64_ok:
  "8 \<le> length r \<Longrightarrow> binary_Read_u64 r = (Inr (le_word (take 8 r)), drop 8 r)"
  by (simp add: binary_Read_u64_def binary_Read_ok andThen_def)

lemmas read_ok = binary_Read_u8_ok binary_Read_u16_ok binary_Read_u32_ok binary_Read_u64_ok

lemmas tag_defs = TAG_BYTE1_def TAG_BYTE4_def TAG_BYTE8_def TAG_LENGTH4_def TAG_ID_def

lemma links_line_payload: "parseSceneItemBlock_links line_payload = (Inr 0, drop 17 line_payload)"
  by (simp add: line_payload_def parseSceneItemBlock_links_def expectTag_def readVarint_def
      readCrdtId_def andThen_def read_ok tag_defs le_word_def)

lemma fields_line_payload: "parseLineData_fields (drop 23 line_payload) =
     (Inr (\<lparr>V6Line.Color = 0, V6Line.Tool = 4, V6Line.Points = [], ThicknessScale = 0x4000000000000000, StartingLength = 0\<rparr>, 14), drop 52 line_payload)"
  by (simp add: line_payload_def parseLineData_fields_def expectTag_def readVarint_def
      andThen_def read_ok tag_defs le_word_def)

lemma parsePoint_line_payload: "parsePoint fc (drop 52 line_payload) 2 = (Inr \<lparr>V6Point.X = 0x42C80000, V6Point.Y = 0x43480000, V6Point.Speed = 8,
                 V6Point.Width = 16, V6Point.Direction = 0, V6Point.Pressure = 128\<rparr>, [])"
  by (simp add: line_payload_def parsePoint_def andThen_def read_ok le_word_def)

lemma parseLineData_line_payload: "parseLineData fc (drop 23 line_payload) 2 = (Inr example_line, [])"
  by (simp add: parseLineData_def fields_line_payload andThen_def pointSize_def parseLineData_loop.simps
      parsePoint_line_payload example_line_def)

lemma parseSceneItemBlock_line_payload: "parseSceneItemBlock fc line_payload 2 = Inr (Some example_line)"
  apply (simp add: parseSceneItemBlock_def links_line_payload)
  apply (simp add: line_payload_def expectTag_def readVarint_def andThen_def read_ok tag_defs le_word_def ITEM_TYPE_LINE_def)
  apply (simp add: parseLineData_line_payload [unfolded line_payload_def, simplified])
  done

subsection \<open>Successful reads are not affected by what follows\<close>

lemma framedD: "framed f \<Longrightarrow> f xs = (Inr a, r') \<Longrightarrow> f (xs @ ys) = (Inr a, r' @ ys)"
  by (simp add: framed_def)

lemma framed_andThen:
  assumes "framed f" and "\<And>a. framed (g a)"
  shows "framed (\<lambda>r. andThen (f r) g)"
  unfolding framed_def
proof (intro allI impI)
  fix xs ys b r'
  assume run: "andThen (f xs) g = (Inr b, r')"
  then obtain a r1 where first: "f xs = (Inr a, r1)" and second: "g a r1 = (Inr b, r')"
    by (auto simp: andThen_def split: prod.splits sum.splits)
  from first have "f (xs @ ys) = (Inr a, r1 @ ys)"
    using assms(1) by (rule framedD [rotated])
  moreover from second have "g a (r1 @ ys) = (Inr b, r' @ ys)"
    using assms(2) by (rule framedD [rotated])
  ultimately show "andThen (f (xs @ ys)) g = (Inr b, r' @ ys)"
    by (simp add: andThen_def)
qed

lemma framed_return: "framed (\<lambda>r. (Inr a, r))"
  by (simp add: framed_def)

lemma framed_binary_Read: "framed (binary_Read n)"
  unfolding framed_def
proof (intro allI impI)
  fix xs ys bs r'
  assume "binary_Read n xs = (Inr bs, r')"
  then have "n \<le> length xs"
    using binary_Read_len by fastforce
  then show "binary_Read n (xs @ ys) = (Inr bs, r' @ ys)"
    using \<open>binary_Read n xs = (Inr bs, r')\<close> by (simp add: binary_Read_ok)
qed

lemma framed_binary_Read_u8: "framed binary_Read_u8"
  unfolding binary_Read_u8_def by (intro framed_andThen framed_binary_Read framed_return)

lemma framed_binary_Read_u32: "framed binary_Read_u32"
  unfolding binary_Read_u32_def by (intro framed_andThen framed_binary_Read framed_return)

lemma framed_readVarint_loop: "framed (readVarint_loop result shift)"
  unfolding framed_def
proof (intro allI impI)
  fix xs ys v r'
  assume "readVarint_loop result shift xs = (Inr v, r')"
  then show "readVarint_loop result shift (xs @ ys) = (Inr v, r' @ ys)"
    by (induction result shift xs rule: readVarint_loop.induct)
      (auto simp: Let_def split: if_splits)
qed

lemma framed_readVarint: "framed readVarint"
  using framed_readVarint_loop [of 0 0] by (simp add: readVarint_def [abs_def])

lemma framed_expectTag: "framed (\<lambda>r. expectTag r i t)"
  unfolding expectTag_def
  by (intro framed_andThen framed_readVarint) (simp add: framed_def Let_def)

lemma framed_readCrdtId: "framed readCrdtId"
  unfolding readCrdtId_def [abs_def]
  by (intro framed_andThen framed_readVarint framed_binary_Read_u8 framed_return)

lemma framed_links: "framed parseSceneItemBlock_links"
  unfolding parseSceneItemBlock_links_def [abs_def]
  by (intro framed_andThen framed_expectTag framed_readCrdtId framed_binary_Read_u32)

subsection \<open>Deleted items\<close>

text \<open>
  C9. When the four identifiers and the deleted-length field of a scene item decode and the
  deleted length is greater than 0, \<^verbatim>\<open>parseSceneItemBlock\<close> returns no line and no error,
  whatever bytes \<open>rest\<close> follow the field in the payload and whatever the block version,
  and the block contributes nothing to the extracted lines.
\<close>

theorem tombstone_yields_no_stroke:
  assumes "parseSceneItemBlock_links links = (Inr deletedLength, [])" and "deletedLength > 0"
  shows "parseSceneItemBlock fc (links @ rest) (CurrentVersion block) = Inr None
       \<and> extractLinesFromV6Blocks fc
            [block\<lparr>BlockType := BLOCK_SCENE_ITEM, Data := links @ rest\<rparr>] = []"
proof -
  have "parseSceneItemBlock_links (links @ rest) = (Inr deletedLength, rest)"
    using framedD [OF framed_links assms(1), of rest] by simp
  then have "parseSceneItemBlock fc (links @ rest) (CurrentVersion block) = Inr None"
    using assms(2) by (simp add: parseSceneItemBlock_def)
  then show ?thesis
    by (simp add: extractLinesFromV6Blocks_def)
qed

theorem tombstone_yields_no_stroke_witness:
  "parseSceneItemBlock_links tombstone_links = (Inr 1, [])
   \<and> (0 :: 32 word) < 1
   \<and> parseSceneItemBlock sample_conv (tombstone_links @ drop 17 line_payload)
         (CurrentVersion zero_block) = Inr None
   \<and> extractLinesFromV6Blocks sample_conv
         [zero_block\<lparr>BlockType := BLOCK_SCENE_ITEM,
            Data := tombstone_links @ drop 17 line_payload\<rparr>] = []"
proof -
  have links: "parseSceneItemBlock_links tombstone_links = (Inr 1, [])"
    by (simp add: tombstone_links_def parseSceneItemBlock_links_def expectTag_def
        readVarint_def readCrdtId_def andThen_def read_ok tag_defs le_word_def)
  have deleted: "(1 :: 32 word) > 0"
    by simp
  show ?thesis
    using links deleted
      tombstone_yields_no_stroke [OF links deleted, of sample_conv "drop 17 line_payload" zero_block]
    by simp
qed


section \<open>Properties of decoding a whole stream\<close>

subsection \<open>A partial block at the end of the stream\<close>

lemma loop_cut_tiny:
  assumes "1 \<le> length part" "length part \<le> 3"
  shows "parseV6Blocks_loop part acc = (acc, Some ErrUnexpectedEOF)"
proof -
  have "part \<noteq> []" using assms by auto
  then show ?thesis
    using assms parseV6Block_tiny [of part] parseV6Blocks_loop_err [of part zero_block ErrUnexpectedEOF "[]" acc]
    by simp
qed

lemma loop_cut_header:
  assumes "4 \<le> length part" "length part \<le> 7"
  shows "parseV6Blocks_loop part acc = (acc, None)"
proof -
  have "part \<noteq> []" using assms by auto
  moreover obtain b where "parseV6Block part = ((b, Some EOF), [])"
    using assms parseV6Block_short_header [of part] by auto
  ultimately show ?thesis
    using parseV6Blocks_loop_err [of part b EOF "[]" acc] by simp
qed

lemma loop_cut_no_payload:
  assumes "length part = 8" "0 < unat (le_word (take 4 part) :: 32 word)"
  shows "parseV6Blocks_loop part acc = (acc, None)"
proof -
  have "part \<noteq> []" using assms by auto
  moreover have "\<exists>b. parseV6Block part = ((b, Some EOF), [])"
    using assms parseV6Block_header [of part] by (simp add: Size_block_header Let_def)
  ultimately show ?thesis
    using parseV6Blocks_loop_err [of part _ EOF "[]" acc] by auto
qed

lemma loop_cut_payload:
  assumes "8 < length part" "length part - 8 < unat (le_word (take 4 part) :: 32 word)"
  shows "parseV6Blocks_loop part acc = (acc, Some ErrUnexpectedEOF)"
proof -
  have "part \<noteq> []" using assms by auto
  moreover have "\<exists>b. parseV6Block part = ((b, Some ErrUnexpectedEOF), [])"
    using assms parseV6Block_header [of part] by (simp add: Size_block_header Let_def)
  ultimately show ?thesis
    using parseV6Blocks_loop_err [of part _ ErrUnexpectedEOF "[]" acc] by auto
qed

subsection \<open>Evaluation on the example blocks\<close>

lemma length_line_payload: "length line_payload = 66"
  by (simp add: line_payload_def)

lemma length_line_block: "length line_block = 74"
  by (simp add: line_block_def length_line_payload)

lemma parseV6Block_line_block:
  "parseV6Block (line_block @ rest) = ((line_block_parsed, None), rest)"
proof -
  have hdr: "block_header line_block = line_block_parsed\<lparr>Data := []\<rparr>"
    by (simp add: block_header_def line_block_def line_block_parsed_def le_word_def)
  have size: "unat (le_word (take 4 line_block) :: 32 word) = 66"
    by (simp add: line_block_def le_word_def)
  show ?thesis
    using parseV6Block_whole [of line_block rest]
    by (simp add: hdr size length_line_block Size_block_header)
      (simp add: line_block_def length_line_payload line_block_parsed_def)
qed

lemma parseV6Block_bad_block:
  "parseV6Block (bad_block @ rest) = ((bad_block_parsed, None), rest)"
proof -
  have hdr: "block_header bad_block = bad_block_parsed\<lparr>Data := []\<rparr>"
    by (simp add: block_header_def bad_block_def bad_block_parsed_def le_word_def)
  have size: "unat (le_word (take 4 bad_block) :: 32 word) = 1"
    by (simp add: bad_block_def le_word_def)
  show ?thesis
    using parseV6Block_whole [of bad_block rest]
    by (simp add: hdr size Size_block_header)
      (simp add: bad_block_def bad_block_parsed_def)
qed

lemma loop_line_block:
  "parseV6Blocks_loop (line_block @ rest) acc = parseV6Blocks_loop rest (acc @ [line_block_parsed])"
  using parseV6Blocks_loop_ok [OF _ parseV6Block_line_block, of rest acc]
  by (simp add: line_block_def)

lemma loop_bad_block:
  "parseV6Blocks_loop (bad_block @ rest) acc = parseV6Blocks_loop rest (acc @ [bad_block_parsed])"
  using parseV6Blocks_loop_ok [OF _ parseV6Block_bad_block, of rest acc]
  by (simp add: bad_block_def)

subsection \<open>Extraction of lines\<close>

lemma extractLines_loop_acc:
  "extractLines_loop fc blocks acc = acc @ extractLines_loop fc blocks []"
proof (induction blocks arbitrary: acc)
  case Nil
  then show ?case by simp
next
  case (Cons b blocks)
  show ?case
    using Cons.IH [of "acc @ _"] Cons.IH [of "[_]"] Cons.IH [of acc]
    by (simp split: sum.splits option.splits)
qed

lemma extractLines_append:
  "extractLinesFromV6Blocks fc (bs1 @ bs2)
     = extractLinesFromV6Blocks fc bs1 @ extractLinesFromV6Blocks fc bs2"
  unfolding extractLinesFromV6Blocks_def
proof (induction bs1)
  case Nil
  then show ?case by simp
next
  case (Cons b bs1)
  show ?case
    using Cons.IH extractLines_loop_acc [of fc "bs1 @ bs2" "[_]"] extractLines_loop_acc [of fc "bs1" "[_]"]
    by (simp split: sum.splits option.splits)
qed

lemma extractLines_single:
  "extractLinesFromV6Blocks fc [b] =
     (if BlockType b = BLOCK_SCENE_ITEM then
        (case parseSceneItemBlock fc (Data b) (CurrentVersion b) of
           Inr (Some line) \<Rightarrow> [line] | _ \<Rightarrow> [])
      else [])"
  by (simp add: extractLinesFromV6Blocks_def split: sum.splits option.splits)

lemma ParseV6_after_header:
  "ParseV6 fc conv (HeaderV6 @ stream) =
     (case parseV6Blocks stream of
        (blocks, Some err) \<Rightarrow> Inl err
      | (blocks, None) \<Rightarrow>
          Inr \<lparr>Version = V6, Layers = [\<lparr>Lines = map conv (extractLinesFromV6Blocks fc blocks)\<rparr>]\<rparr>)"
  by (simp add: ParseV6_def HeaderLen_def length_HeaderV6)

lemma parseSceneItemBlock_bad: "parseSceneItemBlock fc [0x2F] 2 = Inl UnexpectedTag"
  by (simp add: parseSceneItemBlock_def parseSceneItemBlock_links_def expectTag_def
      readVarint_def andThen_def tag_defs)

lemma blocks_bad_line:
  "parseV6Blocks (bad_block @ line_block) = ([bad_block_parsed, line_block_parsed], None)"
  using loop_bad_block [of line_block "[]"] loop_line_block [of "[]" "[bad_block_parsed]"]
  by (simp add: parseV6Blocks_def parseV6Blocks_loop_stop)

lemma extract_bad: "extractLinesFromV6Blocks fc [bad_block_parsed] = []"
  by (simp add: extractLines_single bad_block_parsed_def BLOCK_SCENE_ITEM_def parseSceneItemBlock_bad)

lemma extract_line: "extractLinesFromV6Blocks fc [line_block_parsed] = [example_line]"
  by (simp add: extractLines_single line_block_parsed_def BLOCK_SCENE_ITEM_def
      parseSceneItemBlock_line_payload)

lemma extract_bad_line:
  "extractLinesFromV6Blocks fc [bad_block_parsed, line_block_parsed] = [example_line]"
  using extractLines_append [of fc "[bad_block_parsed]" "[line_block_parsed]"]
  by (simp add: extract_bad extract_line)

lemma parseV6Blocks_whole:
  assumes "whole_blocks pre"
  shows "parseV6Blocks pre = (fst (parseV6Blocks pre), None)"
    and "parseV6Blocks (pre @ part) = parseV6Blocks_loop part (fst (parseV6Blocks pre))"
proof -
  have "snd (parseV6Blocks pre) = None"
    using whole_blocks_loop [OF assms, of "[]" "[]"] by (simp add: parseV6Blocks_def)
  then show "parseV6Blocks pre = (fst (parseV6Blocks pre), None)"
    by (simp add: prod_eq_iff)
  show "parseV6Blocks (pre @ part) = parseV6Blocks_loop part (fst (parseV6Blocks pre))"
    using whole_blocks_loop [OF assms, of part "[]"] by (simp add: parseV6Blocks_def)
qed

lemma whole_bad_line: "whole_blocks (bad_block @ line_block)"
  apply (subst whole_blocks.simps)
  apply (simp add: bad_block_def le_word_def length_line_block)
  apply (subst whole_blocks.simps)
  apply (simp add: line_block_def le_word_def length_line_payload)
  apply (subst whole_blocks.simps)
  apply simp
  done

lemma whole_line_block: "whole_blocks line_block"
  apply (subst whole_blocks.simps)
  apply (simp add: line_block_def le_word_def length_line_payload)
  apply (subst whole_blocks.simps)
  apply simp
  done

lemma whole_two_line_blocks: "whole_blocks (line_block @ line_block)"
proof -
  have "whole_blocks (line_block @ line_block) = whole_blocks line_block"
    by (subst whole_blocks.simps) (simp add: line_block_def le_word_def length_line_payload)
  then show ?thesis
    using whole_line_block by simp
qed

lemma ParseV6_line_block:
  "ParseV6 fc (\<lambda>line. line) (HeaderV6 @ line_block)
     = Inr \<lparr>Version = V6, Layers = [\<lparr>Lines = [example_line]\<rparr>]\<rparr>"
  using loop_line_block [of "[]" "[]"]
  by (simp add: ParseV6_after_header parseV6Blocks_def parseV6Blocks_loop_stop extract_line)

lemma ParseV6_two_line_blocks:
  "ParseV6 fc (\<lambda>line. line) (HeaderV6 @ line_block @ line_block)
     = Inr \<lparr>Version = V6, Layers = [\<lparr>Lines = [example_line, example_line]\<rparr>]\<rparr>"
  using loop_line_block [of "line_block" "[]"] loop_line_block [of "[]" "[line_block_parsed]"]
    extractLines_append [of fc "[line_block_parsed]" "[line_block_parsed]"]
  by (simp add: ParseV6_after_header parseV6Blocks_def parseV6Blocks_loop_stop extract_line)

lemma take_123: "take 123 (HeaderV6 @ line_block @ line_block) = HeaderV6 @ line_block @ take 6 line_block"
  by (simp add: length_HeaderV6 length_line_block)

subsection \<open>Scene items that fail to parse\<close>

text \<open>
  C2, as stated, fails. The payload of the first block below violates the tag order, and
  \<^verbatim>\<open>parseSceneItemBlock\<close> reports it; decoding the stream nevertheless succeeds, with the
  line of the block that follows.
\<close>

theorem failing_scene_item_counterexample:
  "parseSceneItemBlock sample_conv (Data bad_block_parsed) (CurrentVersion bad_block_parsed)
     = Inl UnexpectedTag
   \<and> ParseV6 sample_conv (\<lambda>line. line) (HeaderV6 @ bad_block @ line_block)
       = Inr \<lparr>Version = V6, Layers = [\<lparr>Lines = [example_line]\<rparr>]\<rparr>"
  by (simp add: ParseV6_after_header blocks_bad_line extract_bad_line)
    (simp add: bad_block_parsed_def parseSceneItemBlock_bad)

text \<open>
  C2, amended. A stream of complete blocks always decodes successfully, whatever the
  payloads of its scene items hold, and the document has the lines extracted from the
  blocks; a scene item whose parse fails contributes no line, and the lines of the blocks
  before and after it are kept.
\<close>

theorem scene_item_errors_are_dropped:
  assumes "whole_blocks stream"
  shows "(\<exists>blocks. parseV6Blocks stream = (blocks, None)
            \<and> ParseV6 fc conv (HeaderV6 @ stream)
                = Inr \<lparr>Version = V6,
                       Layers = [\<lparr>Lines = map conv (extractLinesFromV6Blocks fc blocks)\<rparr>]\<rparr>)
       \<and> (parseSceneItemBlock fc (Data b) (CurrentVersion b) = Inl err \<longrightarrow>
            extractLinesFromV6Blocks fc (bs1 @ b # bs2)
              = extractLinesFromV6Blocks fc (bs1 @ bs2))"
proof -
  have "snd (parseV6Blocks stream) = None"
    using whole_blocks_loop [OF assms, of "[]" "[]"] by (simp add: parseV6Blocks_def)
  then obtain blocks where "parseV6Blocks stream = (blocks, None)"
    by (metis prod.collapse)
  then have first: "\<exists>blocks. parseV6Blocks stream = (blocks, None)
            \<and> ParseV6 fc conv (HeaderV6 @ stream)
                = Inr \<lparr>Version = V6,
                       Layers = [\<lparr>Lines = map conv (extractLinesFromV6Blocks fc blocks)\<rparr>]\<rparr>"
    by (simp add: ParseV6_after_header)
  have second: "extractLinesFromV6Blocks fc (bs1 @ b # bs2)
              = extractLinesFromV6Blocks fc (bs1 @ bs2)"
    if "parseSceneItemBlock fc (Data b) (CurrentVersion b) = Inl err"
  proof -
    have "extractLinesFromV6Blocks fc [b] = []"
      using that by (simp add: extractLines_single)
    then show ?thesis
      using extractLines_append [of fc bs1 "[b] @ bs2"] extractLines_append [of fc "[b]" bs2]
        extractLines_append [of fc bs1 bs2]
      by simp
  qed
  from first second show ?thesis by blast
qed

theorem scene_item_errors_are_dropped_witness:
  "whole_blocks (bad_block @ line_block)
   \<and> parseSceneItemBlock sample_conv (Data bad_block_parsed) (CurrentVersion bad_block_parsed)
       = Inl UnexpectedTag
   \<and> (\<exists>blocks. parseV6Blocks (bad_block @ line_block) = (blocks, None)
         \<and> ParseV6 sample_conv (\<lambda>line. line) (HeaderV6 @ bad_block @ line_block)
             = Inr \<lparr>Version = V6,
                    Layers = [\<lparr>Lines = map (\<lambda>line. line)
                                (extractLinesFromV6Blocks sample_conv blocks)\<rparr>]\<rparr>)
   \<and> extractLinesFromV6Blocks sample_conv ([] @ bad_block_parsed # [line_block_parsed])
       = extractLinesFromV6Blocks sample_conv ([] @ [line_block_parsed])"
proof -
  have bad: "parseSceneItemBlock sample_conv (Data bad_block_parsed)
      (CurrentVersion bad_block_parsed) = Inl UnexpectedTag"
    by (simp add: bad_block_parsed_def parseSceneItemBlock_bad)
  show ?thesis
    using whole_bad_line bad
      scene_item_errors_are_dropped [OF whole_bad_line, of sample_conv "\<lambda>line. line"
        bad_block_parsed UnexpectedTag "[]" "[line_block_parsed]"]
    by simp
qed

subsection \<open>Truncated streams\<close>

lemma parseV6Blocks_whole_append:
  assumes "whole_blocks pre" and "whole_blocks post"
  shows "parseV6Blocks (pre @ post)
     = (fst (parseV6Blocks pre) @ fst (parseV6Blocks post), None)"
proof -
  have "parseV6Blocks (pre @ post) = parseV6Blocks_loop post (fst (parseV6Blocks pre))"
    using parseV6Blocks_whole(2) [OF assms(1)] .
  also have "\<dots> = (fst (parseV6Blocks pre) @ fst (parseV6Blocks_loop post []),
      snd (parseV6Blocks_loop post []))"
    by (rule parseV6Blocks_loop_acc)
  finally show ?thesis
    using parseV6Blocks_whole(1) [OF assms(2)] by (simp add: parseV6Blocks_def prod_eq_iff)
qed

text \<open>
  A part of a block of four to seven bytes, or a whole header that declares a non-empty
  payload, at the end of the stream: the read that finds no byte left reports \<^verbatim>\<open>io.EOF\<close>,
  which \<^verbatim>\<open>parseV6Blocks\<close> takes for the end of the stream.
\<close>

lemma truncated_header_read_as_end:
  assumes "whole_blocks pre"
    and "4 \<le> length part \<and> length part \<le> 7
         \<or> length part = 8 \<and> 0 < unat (le_word (take 4 part) :: 32 word)"
  shows "ParseV6 fc conv (HeaderV6 @ pre @ part) = ParseV6 fc conv (HeaderV6 @ pre)"
proof -
  have "parseV6Blocks_loop part (fst (parseV6Blocks pre)) = (fst (parseV6Blocks pre), None)"
    using assms(2) loop_cut_header loop_cut_no_payload by blast
  then have "parseV6Blocks (pre @ part) = parseV6Blocks pre"
    using parseV6Blocks_whole(1) [OF assms(1)] parseV6Blocks_whole(2) [OF assms(1), of part]
    by simp
  then show ?thesis
    by (simp add: ParseV6_after_header)
qed

text \<open>
  C4, as stated, fails. A stream of two complete one-line blocks decodes to two lines. Cut
  after 117 bytes, at the end of the first block, it decodes without error to a document
  holding the first line only; so it does when cut after 123 bytes, six bytes into the
  header of the second block.
\<close>

theorem truncated_stream_counterexample:
  "whole_blocks (line_block @ line_block)
   \<and> ParseV6 sample_conv (\<lambda>line. line) (HeaderV6 @ line_block @ line_block)
       = Inr \<lparr>Version = V6, Layers = [\<lparr>Lines = [example_line, example_line]\<rparr>]\<rparr>
   \<and> 123 < length (HeaderV6 @ line_block @ line_block)
   \<and> ParseV6 sample_conv (\<lambda>line. line) (take 117 (HeaderV6 @ line_block @ line_block))
       = Inr \<lparr>Version = V6, Layers = [\<lparr>Lines = [example_line]\<rparr>]\<rparr>
   \<and> ParseV6 sample_conv (\<lambda>line. line) (take 123 (HeaderV6 @ line_block @ line_block))
       = Inr \<lparr>Version = V6, Layers = [\<lparr>Lines = [example_line]\<rparr>]\<rparr>"
proof -
  have "ParseV6 sample_conv (\<lambda>line. line) (HeaderV6 @ line_block @ take 6 line_block)
      = Inr \<lparr>Version = V6, Layers = [\<lparr>Lines = [example_line]\<rparr>]\<rparr>"
    using truncated_header_read_as_end [OF whole_line_block, of "take 6 line_block"
        sample_conv "\<lambda>line. line"]
    by (simp add: length_line_block ParseV6_line_block)
  moreover have "take 117 (HeaderV6 @ line_block @ line_block) = HeaderV6 @ line_block"
    by (simp add: length_HeaderV6 length_line_block)
  ultimately show ?thesis
    by (simp add: whole_two_line_blocks ParseV6_two_line_blocks take_123 ParseV6_line_block)
      (simp add: length_HeaderV6 length_line_block)
qed

text \<open>
  C4, amended. Let a stream of complete blocks be followed by a part of one more block.
  Decoding fails with the unexpected-EOF error when the part has one to three bytes, or has
  the whole header and at least one but not all of the payload bytes that the header
  declares. A stream cut between two blocks decodes successfully to the lines of the blocks
  before the cut, which are the first lines of the uncut stream. An input cut within its 43
  header bytes is rejected as too small.
\<close>

theorem truncated_block_stream:
  assumes "whole_blocks pre"
  shows "(1 \<le> length part \<and> length part \<le> 3 \<longrightarrow>
            ParseV6 fc conv (HeaderV6 @ pre @ part) = Inl ErrUnexpectedEOF)
       \<and> (8 < length part \<and> length part - 8 < unat (le_word (take 4 part) :: 32 word) \<longrightarrow>
            ParseV6 fc conv (HeaderV6 @ pre @ part) = Inl ErrUnexpectedEOF)
       \<and> (whole_blocks post \<longrightarrow>
            (\<exists>ls ls'. ParseV6 fc conv (HeaderV6 @ pre)
                        = Inr \<lparr>Version = V6, Layers = [\<lparr>Lines = ls\<rparr>]\<rparr>
                    \<and> ParseV6 fc conv (HeaderV6 @ pre @ post)
                        = Inr \<lparr>Version = V6, Layers = [\<lparr>Lines = ls @ ls'\<rparr>]\<rparr>))
       \<and> (n < 43 \<longrightarrow> ParseV6 fc conv (take n (HeaderV6 @ pre)) = Inl FileTooSmall)"
proof -
  note whole = parseV6Blocks_whole [OF assms]
  have full: "ParseV6 fc conv (HeaderV6 @ pre)
      = Inr \<lparr>Version = V6, Layers = [\<lparr>Lines = map conv
          (extractLinesFromV6Blocks fc (fst (parseV6Blocks pre)))\<rparr>]\<rparr>"
    by (subst ParseV6_after_header, subst whole(1)) simp
  have part: "ParseV6 fc conv (HeaderV6 @ pre @ part) =
     (case parseV6Blocks_loop part (fst (parseV6Blocks pre)) of
        (blocks, Some err) \<Rightarrow> Inl err
      | (blocks, None) \<Rightarrow>
          Inr \<lparr>Version = V6, Layers = [\<lparr>Lines = map conv (extractLinesFromV6Blocks fc blocks)\<rparr>]\<rparr>)"
    by (simp add: ParseV6_after_header whole(2))
  have a: "ParseV6 fc conv (HeaderV6 @ pre @ part) = Inl ErrUnexpectedEOF"
    if "1 \<le> length part \<and> length part \<le> 3"
    using that by (simp add: part loop_cut_tiny)
  have b: "ParseV6 fc conv (HeaderV6 @ pre @ part) = Inl ErrUnexpectedEOF"
    if "8 < length part \<and> length part - 8 < unat (le_word (take 4 part) :: 32 word)"
    using that by (simp add: part loop_cut_payload)
  have c: "\<exists>ls ls'. ParseV6 fc conv (HeaderV6 @ pre)
                        = Inr \<lparr>Version = V6, Layers = [\<lparr>Lines = ls\<rparr>]\<rparr>
                    \<and> ParseV6 fc conv (HeaderV6 @ pre @ post)
                        = Inr \<lparr>Version = V6, Layers = [\<lparr>Lines = ls @ ls'\<rparr>]\<rparr>"
    if "whole_blocks post"
  proof -
    have "ParseV6 fc conv (HeaderV6 @ pre @ post)
      = Inr \<lparr>Version = V6, Layers = [\<lparr>Lines =
          map conv (extractLinesFromV6Blocks fc (fst (parseV6Blocks pre)))
          @ map conv (extractLinesFromV6Blocks fc (fst (parseV6Blocks post)))\<rparr>]\<rparr>"
      by (simp add: ParseV6_after_header parseV6Blocks_whole_append [OF assms that]
          extractLines_append)
    with full show ?thesis by blast
  qed
  have d: "ParseV6 fc conv (take n (HeaderV6 @ pre)) = Inl FileTooSmall" if "n < 43"
    using that by (simp add: ParseV6_def HeaderLen_def length_HeaderV6)
  from a b c d show ?thesis by blast
qed

theorem truncated_block_stream_witness:
  "whole_blocks line_block
   \<and> 1 \<le> length (take 2 line_block) \<and> length (take 2 line_block) \<le> 3
   \<and> ParseV6 sample_conv (\<lambda>line. line) (HeaderV6 @ line_block @ take 2 line_block)
       = Inl ErrUnexpectedEOF
   \<and> 8 < length (take 20 line_block)
   \<and> length (take 20 line_block) - 8 < unat (le_word (take 4 (take 20 line_block)) :: 32 word)
   \<and> ParseV6 sample_conv (\<lambda>line. line) (HeaderV6 @ line_block @ take 20 line_block)
       = Inl ErrUnexpectedEOF
   \<and> (\<exists>ls ls'. ParseV6 sample_conv (\<lambda>line. line) (HeaderV6 @ line_block)
                  = Inr \<lparr>Version = V6, Layers = [\<lparr>Lines = ls\<rparr>]\<rparr>
              \<and> ParseV6 sample_conv (\<lambda>line. line) (HeaderV6 @ line_block @ line_block)
                  = Inr \<lparr>Version = V6, Layers = [\<lparr>Lines = ls @ ls'\<rparr>]\<rparr>)
   \<and> (10 :: nat) < 43
   \<and> ParseV6 sample_conv (\<lambda>line. line) (take 10 (HeaderV6 @ line_block)) = Inl FileTooSmall"
proof -
  have size: "unat (le_word (take 4 line_block) :: 32 word) = 66"
    by (simp add: line_block_def le_word_def)
  show ?thesis
    using whole_line_block size
      truncated_block_stream [OF whole_line_block, of "take 2 line_block" sample_conv
        "\<lambda>line. line" line_block 10]
      truncated_block_stream [OF whole_line_block, of "take 20 line_block" sample_conv
        "\<lambda>line. line" line_block 10]
    by (simp add: length_line_block)
qed


section \<open>Properties of \<^verbatim>\<open>float32\<close> arithmetic\<close>

subsection \<open>The fields of a bit pattern\<close>

lemma f32_fraction_less: "unat ((w :: f32) AND 0x7FFFFF) < 2 ^ 23"
proof -
  have "w AND 0x7FFFFF = take_bit 23 w"
    by (simp add: take_bit_eq_mask mask_eq_exp_minus_1)
  then show ?thesis
    using take_bit_nat_less_exp [of 23 "unat w"] by (simp add: unsigned_take_bit_eq)
qed

lemma f32_exponent_le: "unat (drop_bit 23 (w :: f32) AND 0xFF) \<le> 255"
proof -
  have "drop_bit 23 w AND 0xFF = take_bit 8 (drop_bit 23 w)"
    by (simp add: take_bit_eq_mask mask_eq_exp_minus_1)
  then show ?thesis
    using take_bit_nat_less_exp [of 8 "unat (drop_bit 23 w)"] by (simp add: unsigned_take_bit_eq)
qed

lemma f32_exponent_neq:
  assumes "drop_bit 23 (w :: f32) AND 0xFF \<noteq> 0xFF"
  shows "unat (drop_bit 23 w AND 0xFF) \<noteq> 255"
proof
  assume "unat (drop_bit 23 w AND 0xFF) = 255"
  then have "word_of_nat (unat (drop_bit 23 w AND 0xFF)) = (word_of_nat 255 :: f32)"
    by simp
  then have "drop_bit 23 w AND 0xFF = 0xFF"
    by simp
  with assms show False by simp
qed

lemma f32_val_abs:
  "\<bar>f32_val w\<bar> =
     (if unat (drop_bit 23 w AND 0xFF) = 0 then real (unat (w AND 0x7FFFFF)) / f32_unit
      else if unat (drop_bit 23 w AND 0xFF) \<ge> 150
        then real (2 ^ 23 + unat (w AND 0x7FFFFF)) * 2 ^ (unat (drop_bit 23 w AND 0xFF) - 150)
      else real (2 ^ 23 + unat (w AND 0x7FFFFF)) / 2 ^ (150 - unat (drop_bit 23 w AND 0xFF)))"
proof -
  have pos: "\<bar>s * a * b\<bar> = a * b" "\<bar>s * a / b\<bar> = a / b"
    if "s = 1 \<or> s = - 1" "0 \<le> a" "0 < b" for s a b :: real
    using that by (auto simp: abs_mult)
  have sign: "(if bit w 31 then - 1 else 1 :: real) = 1 \<or> (if bit w 31 then - 1 else 1 :: real) = - 1"
    by simp
  have m: "0 \<le> real (unat (w AND 0x7FFFFF))" "0 \<le> real (2 ^ 23 + unat (w AND 0x7FFFFF))"
    by (rule of_nat_0_le_iff)+
  have p: "0 < (2 :: real) ^ n" for n by simp
  show ?thesis
    unfolding f32_val_def Let_def f32_unit_def
    by (simp only: pos [OF sign m(1) p] pos [OF sign m(2) p] if_distrib [of abs] cong: if_cong)
qed

subsection \<open>Rounding\<close>

text \<open>
  A number \<open>M * 2 ^ j / 2 ^ 149\<close> with \<open>M < 2 ^ 24\<close> below \<open>2 ^ 128\<close> is a \<^verbatim>\<open>float32\<close>
  and is not changed by rounding; every finite bit pattern denotes such a number. The
  rounding error of a non-negative number below \<open>2 ^ (24 + K) / 2 ^ 149\<close> is at most
  half a unit in the last place, \<open>2 ^ K / 2 ^ 150\<close>.
\<close>

lemma bit_length_le_iff: "bit_length n \<le> w \<longleftrightarrow> n < 2 ^ w"
proof (induction n arbitrary: w rule: bit_length.induct)
  case (1 n)
  show ?case
  proof (cases "n = 0")
    case True
    then show ?thesis by (simp add: bit_length.simps)
  next
    case False
    show ?thesis
    proof (cases w)
      case 0
      with False show ?thesis by (simp add: bit_length.simps [of n])
    next
      case (Suc v)
      have "bit_length n \<le> Suc v \<longleftrightarrow> bit_length (n div 2) \<le> v"
        using False by (simp add: bit_length.simps [of n])
      also have "\<dots> \<longleftrightarrow> n div 2 < 2 ^ v"
        using "1.IH" [OF False] .
      also have "\<dots> \<longleftrightarrow> n < 2 ^ Suc v"
        by (simp add: less_mult_imp_div_less div_less_iff_less_mult mult.commute)
      finally show ?thesis using Suc by simp
    qed
  qed
qed

lemma round_half_even_int: "round_half_even (of_int n) = n"
  by (simp add: round_half_even_def)

lemma round_half_even_error: "\<bar>of_int (round_half_even x) - x\<bar> \<le> 1 / 2"
  unfolding round_half_even_def Let_def by (auto simp: abs_if) linarith+

lemma round_half_even_nonneg: "0 \<le> x \<Longrightarrow> 0 \<le> round_half_even x"
  unfolding round_half_even_def Let_def by auto

lemma f32_unit_pos: "0 < f32_unit"
  by (simp add: f32_unit_def)

lemma f32_round_representable:
  fixes M j :: nat
  assumes "M < 2 ^ 24" and "real (M * 2 ^ j) < 2 ^ 128 * f32_unit"
    and "\<bar>x\<bar> * f32_unit = real (M * 2 ^ j)"
  shows "f32_round x = Finite x"
proof -
  define k where "k = bit_length (M * 2 ^ j) - 24"
  have "M * 2 ^ j < 2 ^ (24 + j)"
    using assms(1) by (simp add: power_add)
  then have "bit_length (M * 2 ^ j) \<le> 24 + j"
    by (simp only: bit_length_le_iff)
  then have k: "k \<le> j"
    by (simp add: k_def)
  have floor: "nat \<lfloor>\<bar>x\<bar> * f32_unit\<rfloor> = M * 2 ^ j"
    by (simp only: assms(3) floor_of_nat nat_int)
  obtain d where d: "j = d + k"
    using k by (metis le_add_diff_inverse2)
  have "real (M * 2 ^ j) / 2 ^ k = real_of_int (int (M * 2 ^ d))"
    by (simp add: d power_add)
  then have "round_half_even (\<bar>x\<bar> * f32_unit / 2 ^ k) = int (M * 2 ^ d)"
    by (simp only: assms(3) round_half_even_int)
  then have m: "round_half_even (\<bar>x\<bar> * f32_unit / 2 ^ k) * 2 ^ k = int (M * 2 ^ j)"
    by (simp add: d power_add)
  have small: "\<not> real_of_int (int (M * 2 ^ j)) \<ge> 2 ^ 128 * f32_unit"
    using assms(2) by simp
  have "sgn x * real_of_int (int (M * 2 ^ j)) / f32_unit = sgn x * (\<bar>x\<bar> * f32_unit) / f32_unit"
    by (simp only: assms(3) of_int_of_nat_eq)
  also have "\<dots> = x"
    using f32_unit_pos by (simp add: sgn_mult_abs)
  finally have "sgn x * real_of_int (int (M * 2 ^ j)) / f32_unit = x" .
  then show ?thesis
    unfolding f32_round_def Let_def floor k_def [symmetric] m
    using small by (simp only: if_False)
qed

lemma f32_round_error:
  fixes K :: nat
  assumes "0 \<le> x" and "x * f32_unit < 2 ^ (24 + K)" and "2 ^ (25 + K) \<le> 2 ^ 128 * f32_unit"
  shows "\<exists>y. f32_round x = Finite y \<and> 0 \<le> y \<and> \<bar>y - x\<bar> \<le> 2 ^ K / (2 * f32_unit)"
proof -
  define a where "a = \<bar>x\<bar> * f32_unit"
  define k where "k = bit_length (nat \<lfloor>a\<rfloor>) - 24"
  define r where "r = round_half_even (a / 2 ^ k)"
  have a: "a = x * f32_unit" "0 \<le> a"
    using assms(1) f32_unit_pos by (simp_all add: a_def)
  have "real (nat \<lfloor>a\<rfloor>) \<le> a"
    using a(2) by simp
  also have "a < 2 ^ (24 + K)"
    using assms(2) a(1) by simp
  finally have "nat \<lfloor>a\<rfloor> < 2 ^ (24 + K)"
    by (metis of_nat_less_iff of_nat_numeral of_nat_power)
  then have "bit_length (nat \<lfloor>a\<rfloor>) \<le> 24 + K"
    by (simp only: bit_length_le_iff)
  then have k: "k \<le> K"
    by (simp add: k_def)
  have r0: "0 \<le> r"
    unfolding r_def using a(2) by (intro round_half_even_nonneg) simp
  have "\<bar>real_of_int r - a / 2 ^ k\<bar> \<le> 1 / 2"
    unfolding r_def by (rule round_half_even_error)
  then have "\<bar>real_of_int r - a / 2 ^ k\<bar> * 2 ^ k \<le> 1 / 2 * 2 ^ k"
    by (intro mult_right_mono) simp_all
  moreover have "\<bar>real_of_int r - a / 2 ^ k\<bar> * 2 ^ k = \<bar>real_of_int r * 2 ^ k - a\<bar>"
  proof -
    have "(real_of_int r - a / 2 ^ k) * 2 ^ k = real_of_int r * 2 ^ k - a"
      by (simp add: left_diff_distrib)
    then have "\<bar>real_of_int r * 2 ^ k - a\<bar> = \<bar>real_of_int r - a / 2 ^ k\<bar> * \<bar>2 ^ k\<bar>"
      by (simp only: abs_mult [symmetric])
    then show ?thesis by simp
  qed
  ultimately have "\<bar>real_of_int r * 2 ^ k - a\<bar> \<le> 1 / 2 * 2 ^ k"
    by simp
  also have "\<dots> \<le> 1 / 2 * 2 ^ K"
    using k by (intro mult_left_mono power_increasing) simp_all
  finally have err: "\<bar>real_of_int r * 2 ^ k - a\<bar> \<le> 2 ^ K / 2"
    by simp
  then have "real_of_int r * 2 ^ k - a \<le> 2 ^ K / 2"
    by (rule abs_le_D1)
  then have "real_of_int r * 2 ^ k \<le> a + 2 ^ K / 2"
    by linarith
  also have "\<dots> < 2 ^ (24 + K) + 2 ^ K"
  proof -
    have "(2 :: real) ^ K / 2 \<le> 2 ^ K" by simp
    with \<open>a < 2 ^ (24 + K)\<close> show ?thesis by linarith
  qed
  also have "\<dots> \<le> 2 ^ (24 + K) + 2 ^ (24 + K)"
    by simp
  also have "\<dots> = 2 ^ (25 + K)"
  proof -
    have "25 + K = Suc (24 + K)" by simp
    then show ?thesis by (simp only: power_Suc)
  qed
  also note assms(3)
  finally have small: "\<not> real_of_int (r * 2 ^ k) \<ge> 2 ^ 128 * f32_unit"
    by simp
  define y where "y = sgn x * real_of_int (r * 2 ^ k) / f32_unit"
  have round: "f32_round x = Finite y"
    unfolding f32_round_def Let_def a_def [symmetric] k_def [symmetric] r_def [symmetric] y_def
    using small by (simp only: if_False)
  have y0: "0 \<le> y"
    using assms(1) r0 f32_unit_pos by (simp add: y_def sgn_if)
  have "\<bar>y - x\<bar> \<le> 2 ^ K / (2 * f32_unit)"
  proof (cases "x = 0")
    case True
    then have "a = 0" by (simp add: a_def)
    then have "r = 0" by (simp add: r_def round_half_even_def)
    with True f32_unit_pos show ?thesis by (simp add: y_def)
  next
    case False
    with assms(1) have "sgn x = 1" by simp
    then have "y - x = (real_of_int r * 2 ^ k - a) / f32_unit"
      using f32_unit_pos by (simp add: y_def a(1) diff_divide_distrib)
    then have "\<bar>y - x\<bar> = \<bar>real_of_int r * 2 ^ k - a\<bar> / f32_unit"
      using f32_unit_pos by simp
    also have "\<dots> \<le> (2 ^ K / 2) / f32_unit"
      using err f32_unit_pos by (intro divide_right_mono) simp_all
    finally show ?thesis by simp
  qed
  with round y0 show ?thesis by blast
qed

lemma f32_val_representable:
  assumes "drop_bit 23 w AND 0xFF \<noteq> 0xFF"
  shows "\<exists>M j. M < 2 ^ 24 \<and> \<bar>f32_val w\<bar> * f32_unit = real (M * 2 ^ j)"
proof -
  define e where "e = unat (drop_bit 23 w AND 0xFF)"
  define m where "m = unat (w AND 0x7FFFFF)"
  have m: "m < 2 ^ 23"
    unfolding m_def by (rule f32_fraction_less)
  have val: "\<bar>f32_val w\<bar> =
      (if e = 0 then real m / f32_unit
       else if e \<ge> 150 then real (2 ^ 23 + m) * 2 ^ (e - 150)
       else real (2 ^ 23 + m) / 2 ^ (150 - e))"
    unfolding e_def m_def by (rule f32_val_abs)
  show ?thesis
  proof (cases "e = 0")
    case True
    then have "\<bar>f32_val w\<bar> * f32_unit = real (m * 2 ^ 0)"
      using f32_unit_pos by (simp add: val)
    moreover have "m < 2 ^ 24" using m by simp
    ultimately show ?thesis by blast
  next
    case False
    have "\<bar>f32_val w\<bar> * f32_unit = real ((2 ^ 23 + m) * 2 ^ (e - 1))"
    proof (cases "e \<ge> 150")
      case True
      then obtain d where d: "e = 150 + d"
        by (metis le_add_diff_inverse)
      then have "e - 1 = d + 149" "e - 150 = d" by simp_all
      then have "\<bar>f32_val w\<bar> * f32_unit = real (2 ^ 23 + m) * 2 ^ d * 2 ^ 149"
        using True False by (simp only: val f32_unit_def if_True if_False)
      also have "\<dots> = real ((2 ^ 23 + m) * 2 ^ (e - 1))"
        by (simp only: \<open>e - 1 = d + 149\<close> power_add of_nat_mult of_nat_power of_nat_numeral mult.assoc)
      finally show ?thesis .
    next
      case small: False
      define d where "d = 150 - e"
      have split: "149 = (e - 1) + d"
        using small False by (simp add: d_def)
      have "(2 :: real) ^ 149 = 2 ^ (e - 1) * 2 ^ d"
        by (simp only: split [symmetric] power_add [symmetric])
      then have unit: "f32_unit = 2 ^ (e - 1) * 2 ^ d"
        by (simp only: f32_unit_def)
      have "\<bar>f32_val w\<bar> = real (2 ^ 23 + m) / 2 ^ d"
        using small False by (simp only: val if_False d_def)
      then have "\<bar>f32_val w\<bar> * f32_unit = real (2 ^ 23 + m) / 2 ^ d * (2 ^ (e - 1) * 2 ^ d)"
        by (simp only: unit)
      also have "\<dots> = real (2 ^ 23 + m) * 2 ^ (e - 1)"
        by simp
      also have "\<dots> = real ((2 ^ 23 + m) * 2 ^ (e - 1))"
        by (simp only: of_nat_mult of_nat_power of_nat_numeral)
      finally show ?thesis .
    qed
    moreover have "2 ^ 23 + m < 2 ^ 24" using m by simp
    ultimately show ?thesis by blast
  qed
qed

lemma f32_round_nat:
  assumes "n < 2 ^ 24"
  shows "f32_round (real n) = Finite (real n)"
proof -
  have "real n < 2 ^ 24"
    using assms by (metis of_nat_less_iff of_nat_numeral of_nat_power)
  then have "real n * 2 ^ 149 < 2 ^ 24 * 2 ^ 149"
    by (simp only: mult_less_cancel_right_pos zero_less_power zero_less_numeral)
  also have "\<dots> < (2 :: real) ^ 128 * 2 ^ 149"
    by simp
  finally have "real (n * 2 ^ 149) < 2 ^ 128 * f32_unit"
    by (simp add: f32_unit_def)
  moreover have "\<bar>real n\<bar> * f32_unit = real (n * 2 ^ 149)"
    by (simp add: f32_unit_def)
  ultimately show ?thesis
    using assms by (intro f32_round_representable)
qed

subsection \<open>Scaling and conversion\<close>

text \<open>
  Multiplying a finite \<^verbatim>\<open>float32\<close> by 4 is exact as long as the product is below
  \<open>2 ^ 128\<close>. A finite value within 32 bits is converted to its integer part modulo
  \<open>2 ^ 16\<close> or \<open>2 ^ 8\<close>.
\<close>

lemma f32_decode_Finite:
  assumes "f32_decode w = Finite x"
  shows "drop_bit 23 w AND 0xFF \<noteq> 0xFF" and "x = f32_val w"
  using assms by (simp_all add: f32_decode_def split: if_splits)

lemma f32_mul4_exact:
  assumes "f32_decode w = Finite s" and "\<bar>s * 4\<bar> < 2 ^ 128"
  shows "f32_mul (f32_decode w) 4 = Finite (s * 4)"
proof -
  from f32_val_representable [OF f32_decode_Finite(1) [OF assms(1)]]
  obtain M j where M: "M < 2 ^ 24" and rep: "\<bar>s\<bar> * f32_unit = real (M * 2 ^ j)"
    using f32_decode_Finite(2) [OF assms(1)] by auto
  have "\<bar>s * 4\<bar> * f32_unit = 4 * (\<bar>s\<bar> * f32_unit)"
    by (simp add: abs_mult)
  also have "\<dots> = real (M * 2 ^ (j + 2))"
    by (simp only: rep) simp
  finally have rep4: "\<bar>s * 4\<bar> * f32_unit = real (M * 2 ^ (j + 2))" .
  have "\<bar>s * 4\<bar> * f32_unit < 2 ^ 128 * f32_unit"
    using assms(2) f32_unit_pos by (simp only: mult_less_cancel_right_pos)
  then have "real (M * 2 ^ (j + 2)) < 2 ^ 128 * f32_unit"
    by (simp only: rep4)
  from f32_round_representable [OF M this rep4] show ?thesis
    by (simp add: assms(1) f32_mul_def)
qed

lemma toward_zero_nonneg: "0 \<le> x \<Longrightarrow> toward_zero x = \<lfloor>x\<rfloor>"
  by (simp add: toward_zero_def)

lemma fits_int32_Finite:
  assumes "- (2 ^ 31) \<le> x" and "x < 2 ^ 31"
  shows "fits_int32 (Finite x)"
proof (cases "x < 0")
  case True
  define n where "n = \<lfloor>- x\<rfloor>"
  have "n \<le> 2 ^ 31" "0 \<le> n"
    using assms(1) True by (simp_all add: n_def floor_le_iff)
  then have "- (2 ^ 31) \<le> - n \<and> - n < 2 ^ 31"
    by simp
  then show ?thesis
    using True by (simp only: fits_int32_def toward_zero_def f32_value.case if_True n_def)
next
  case False
  define n where "n = \<lfloor>x\<rfloor>"
  have "n < 2 ^ 31" "0 \<le> n"
    using assms(2) False by (simp_all add: n_def floor_less_iff)
  then have "- (2 ^ 31) \<le> n \<and> n < 2 ^ 31"
    by simp
  then show ?thesis
    using False by (simp only: fits_int32_def toward_zero_def f32_value.case if_False n_def)
qed

lemma to_uint16_Finite:
  assumes "- (2 ^ 31) \<le> x" and "x < 2 ^ 31"
  shows "to_uint16 fc (Finite x) = word_of_int (toward_zero x)"
    and "uint (to_uint16 fc (Finite x)) = toward_zero x mod 2 ^ 16"
  using fits_int32_Finite [OF assms] by (simp_all add: to_uint16_def uint_word_of_int)

lemma to_uint8_Finite:
  assumes "- (2 ^ 31) \<le> x" and "x < 2 ^ 31"
  shows "to_uint8 fc (Finite x) = word_of_int (toward_zero x)"
    and "uint (to_uint8 fc (Finite x)) = toward_zero x mod 2 ^ 8"
  using fits_int32_Finite [OF assms] by (simp_all add: to_uint8_def uint_word_of_int)

lemma to_uint16_in_range:
  assumes "0 \<le> x" and "x < 65536"
  shows "uint (to_uint16 fc (Finite x)) = \<lfloor>x\<rfloor>"
proof -
  have "0 \<le> \<lfloor>x\<rfloor>" "\<lfloor>x\<rfloor> < 65536"
    using assms by (simp_all add: floor_less_iff)
  then have "\<lfloor>x\<rfloor> mod 2 ^ 16 = \<lfloor>x\<rfloor>"
    by simp
  moreover have "uint (to_uint16 fc (Finite x)) = toward_zero x mod 2 ^ 16"
    using assms by (intro to_uint16_Finite) simp_all
  ultimately show ?thesis
    using assms(1) by (simp only: toward_zero_nonneg)
qed

lemma to_uint8_in_range:
  assumes "0 \<le> x" and "x < 256"
  shows "uint (to_uint8 fc (Finite x)) = \<lfloor>x\<rfloor>"
proof -
  have "0 \<le> \<lfloor>x\<rfloor>" "\<lfloor>x\<rfloor> < 256"
    using assms by (simp_all add: floor_less_iff)
  then have "\<lfloor>x\<rfloor> mod 2 ^ 8 = \<lfloor>x\<rfloor>"
    by simp
  moreover have "uint (to_uint8 fc (Finite x)) = toward_zero x mod 2 ^ 8"
    using assms by (intro to_uint8_Finite) simp_all
  ultimately show ?thesis
    using assms(1) by (simp only: toward_zero_nonneg)
qed

lemma f32_round_below_256:
  assumes "0 \<le> x" and "x < 256"
  shows "\<exists>y. f32_round x = Finite y \<and> 0 \<le> y \<and> \<bar>y - x\<bar> \<le> 1 / 2 ^ 17"
proof -
  have "x * f32_unit < 256 * f32_unit"
    using assms(2) f32_unit_pos by (simp only: mult_less_cancel_right_pos)
  then have "x * f32_unit < 2 ^ (24 + 133)"
    by (simp add: f32_unit_def)
  moreover have "(2 :: real) ^ (25 + 133) \<le> 2 ^ 128 * f32_unit"
    by (simp add: f32_unit_def)
  ultimately obtain y where y: "f32_round x = Finite y" "0 \<le> y"
    "\<bar>y - x\<bar> \<le> 2 ^ 133 / (2 * f32_unit)"
    using f32_round_error [OF assms(1), of 133] by blast
  have "2 ^ 133 / (2 * f32_unit) = 1 / 2 ^ 17"
    by (simp add: f32_unit_def)
  with y(3) have "\<bar>y - x\<bar> \<le> 1 / 2 ^ 17"
    by (simp only:)
  with y(1,2) show ?thesis by blast
qed

lemma f32_round_below_2048:
  assumes "0 \<le> x" and "x < 2048"
  shows "\<exists>y. f32_round x = Finite y \<and> 0 \<le> y \<and> \<bar>y - x\<bar> \<le> 1 / 2 ^ 14"
proof -
  have "x * f32_unit < 2048 * f32_unit"
    using assms(2) f32_unit_pos by (simp only: mult_less_cancel_right_pos)
  then have "x * f32_unit < 2 ^ (24 + 136)"
    by (simp add: f32_unit_def)
  moreover have "(2 :: real) ^ (25 + 136) \<le> 2 ^ 128 * f32_unit"
    by (simp add: f32_unit_def)
  ultimately obtain y where y: "f32_round x = Finite y" "0 \<le> y"
    "\<bar>y - x\<bar> \<le> 2 ^ 136 / (2 * f32_unit)"
    using f32_round_error [OF assms(1), of 136] by blast
  have "2 ^ 136 / (2 * f32_unit) = 1 / 2 ^ 14"
    by (simp add: f32_unit_def)
  with y(3) have "\<bar>y - x\<bar> \<le> 1 / 2 ^ 14"
    by (simp only:)
  with y(1,2) show ?thesis by blast
qed

lemma pressure_conversion:
  assumes "f32_decode w = Finite q" and "0 \<le> q" and "q \<le> 1"
  shows "\<exists>y. \<bar>y - q * 255\<bar> \<le> 1 / 2 ^ 17 \<and> 0 \<le> y \<and> y < 256
           \<and> uint (to_uint8 fc (f32_mul (f32_decode w) 255)) = \<lfloor>y\<rfloor>"
proof -
  have "0 \<le> q * 255" "q * 255 < 256"
    using assms(2,3) by simp_all
  from f32_round_below_256 [OF this] obtain y where
    y: "f32_round (q * 255) = Finite y" "0 \<le> y" "\<bar>y - q * 255\<bar> \<le> 1 / 2 ^ 17"
    by blast
  have "y - q * 255 \<le> 1 / 2 ^ 17"
    using y(3) by (rule abs_le_D1)
  then have "y \<le> q * 255 + 1 / 2 ^ 17"
    by simp
  then have less: "y < 256"
    using assms(3) by simp
  have "uint (to_uint8 fc (Finite y)) = \<lfloor>y\<rfloor>"
    using y(2) less by (rule to_uint8_in_range)
  then have "uint (to_uint8 fc (f32_mul (f32_decode w) 255)) = \<lfloor>y\<rfloor>"
    by (simp add: assms(1) f32_mul_def y(1))
  with y less show ?thesis by blast
qed

lemma direction_conversion:
  assumes "f32_decode w = Finite d" and "0 \<le> d" and "d \<le> 63 / 10"
  shows "\<exists>y. \<bar>y - d * 255 / float32_6_28318\<bar> \<le> 1 / 2 ^ 15 \<and> 0 \<le> y \<and> y < 256
           \<and> uint (to_uint8 fc (f32_div (f32_mul (f32_decode w) 255) float32_6_28318)) = \<lfloor>y\<rfloor>"
proof -
  define c where "c = float32_6_28318"
  have c: "6.28318 \<le> c" "c \<le> 6.28319"
    by (simp_all add: c_def float32_6_28318_def)
  have "0 \<le> d * 255" "d * 255 < 2048"
    using assms(2,3) by simp_all
  from f32_round_below_2048 [OF this] obtain y1 where
    y1: "f32_round (d * 255) = Finite y1" "0 \<le> y1" "\<bar>y1 - d * 255\<bar> \<le> 1 / 2 ^ 14"
    by blast
  have "y1 - d * 255 \<le> 1 / 2 ^ 14"
    using y1(3) by (rule abs_le_D1)
  then have "y1 \<le> d * 255 + 1 / 2 ^ 14"
    by simp
  then have y1_le: "y1 \<le> 1607"
    using assms(3) by simp
  have q0: "0 \<le> y1 / c"
    using y1(2) c(1) by simp
  have "y1 / c \<le> 1607 / c"
    using y1_le c(1) by (simp add: divide_right_mono)
  also have "\<dots> \<le> 1607 / 6.28318"
    using c(1) by (intro divide_left_mono) simp_all
  also have "\<dots> < 255.9"
    by simp
  finally have q1: "y1 / c < 255.9" .
  then have "y1 / c < 256"
    by linarith
  from f32_round_below_256 [OF q0 this] obtain y where
    y: "f32_round (y1 / c) = Finite y" "0 \<le> y" "\<bar>y - y1 / c\<bar> \<le> 1 / 2 ^ 17"
    by blast
  have "y - y1 / c \<le> 1 / 2 ^ 17"
    using y(3) by (rule abs_le_D1)
  moreover have "(1 :: real) / 2 ^ 17 < 1 / 10"
    by simp
  ultimately have less: "y < 256"
    using q1 by linarith
  have "\<bar>y1 / c - d * 255 / c\<bar> = \<bar>y1 - d * 255\<bar> / c"
    using c(1) by (simp add: diff_divide_distrib [symmetric])
  also have "\<dots> \<le> (1 / 2 ^ 14) / c"
    using y1(3) c(1) by (intro divide_right_mono) simp_all
  also have "\<dots> \<le> (1 / 2 ^ 14) / 4"
    using c(1) by (intro divide_left_mono) simp_all
  finally have "\<bar>y1 / c - d * 255 / c\<bar> \<le> 1 / 2 ^ 16"
    by simp
  with y(3) have "\<bar>y - y1 / c\<bar> + \<bar>y1 / c - d * 255 / c\<bar> \<le> 1 / 2 ^ 17 + 1 / 2 ^ 16"
    by (rule add_mono)
  moreover have "\<bar>y - d * 255 / c\<bar> \<le> \<bar>y - y1 / c\<bar> + \<bar>y1 / c - d * 255 / c\<bar>"
  proof -
    have "\<bar>a - b\<bar> \<le> \<bar>a - m\<bar> + \<bar>m - b\<bar>" for a b m :: real
      by linarith
    then show ?thesis .
  qed
  ultimately have "\<bar>y - d * 255 / c\<bar> \<le> 1 / 2 ^ 17 + 1 / 2 ^ 16"
    by (rule order_trans [rotated])
  then have err: "\<bar>y - d * 255 / c\<bar> \<le> 1 / 2 ^ 15"
    by simp
  have "uint (to_uint8 fc (Finite y)) = \<lfloor>y\<rfloor>"
    using y(2) less by (rule to_uint8_in_range)
  then have "uint (to_uint8 fc (f32_div (f32_mul (f32_decode w) 255) float32_6_28318)) = \<lfloor>y\<rfloor>"
    by (simp add: assms(1) f32_mul_def f32_div_def y1(1) y(1) [unfolded c_def])
  with y(2) less err show ?thesis
    unfolding c_def by blast
qed

lemma speed_conversion:
  assumes "f32_decode w = Finite s"
  shows "- (2 ^ 31) \<le> s * 4 \<Longrightarrow> s * 4 < 2 ^ 31 \<Longrightarrow>
           uint (to_uint16 fc (f32_mul (f32_decode w) 4)) = toward_zero (s * 4) mod 2 ^ 16"
    and "0 \<le> s \<Longrightarrow> s * 4 < 65536 \<Longrightarrow>
           uint (to_uint16 fc (f32_mul (f32_decode w) 4)) = \<lfloor>s * 4\<rfloor>"
proof -
  have exact: "f32_mul (f32_decode w) 4 = Finite (s * 4)"
    if "- (2 ^ 31) \<le> s * 4" "s * 4 < 2 ^ 31"
  proof -
    have "\<bar>s * 4\<bar> \<le> 2 ^ 31"
      using that by (simp add: abs_le_iff)
    also have "\<dots> < (2 :: real) ^ 128"
      by simp
    finally show ?thesis
      by (rule f32_mul4_exact [OF assms])
  qed
  show "uint (to_uint16 fc (f32_mul (f32_decode w) 4)) = toward_zero (s * 4) mod 2 ^ 16"
    if "- (2 ^ 31) \<le> s * 4" "s * 4 < 2 ^ 31"
    using to_uint16_Finite(2) [OF that] exact [OF that] by (simp only:)
  show "uint (to_uint16 fc (f32_mul (f32_decode w) 4)) = \<lfloor>s * 4\<rfloor>"
    if "0 \<le> s" "s * 4 < 65536"
  proof -
    have "- (2 ^ 31) \<le> s * 4" "s * 4 < 2 ^ 31" "0 \<le> s * 4"
      using that by simp_all
    with to_uint16_in_range [of "s * 4" fc] exact that(2) show ?thesis
      by (simp only:)
  qed
qed

section \<open>Properties of the point decoder\<close>

lemma parsePoint_len:
  assumes "parsePoint fc r version = (Inr point, r')"
  shows "length r = pointSize version + length r'"
proof (cases "version = 1")
  case True
  with assms obtain v1 r1 v2 r2 v3 r3 v4 r4 v5 r5 v6 where
    "binary_Read_u32 r = (Inr v1, r1)" "binary_Read_u32 r1 = (Inr v2, r2)"
    "binary_Read_u32 r2 = (Inr v3, r3)" "binary_Read_u32 r3 = (Inr v4, r4)"
    "binary_Read_u32 r4 = (Inr v5, r5)" "binary_Read_u32 r5 = (Inr v6, r')"
    by (auto simp: parsePoint_def andThen_def split: prod.splits sum.splits)
  then show ?thesis
    using True by (auto simp: pointSize_def dest!: binary_Read_u32_len)
next
  case False
  with assms obtain v1 r1 v2 r2 v3 r3 v4 r4 v5 r5 v6 where
    "binary_Read_u32 r = (Inr v1, r1)" "binary_Read_u32 r1 = (Inr v2, r2)"
    "binary_Read_u16 r2 = (Inr v3, r3)" "binary_Read_u16 r3 = (Inr v4, r4)"
    "binary_Read_u8 r4 = (Inr v5, r5)" "binary_Read_u8 r5 = (Inr v6, r')"
    by (auto simp: parsePoint_def andThen_def split: prod.splits sum.splits)
  moreover have "length x = 2 + length y" if "binary_Read_u16 x = (Inr v, y)" for x y v
    using that by (auto simp: binary_Read_u16_def andThen_def split: prod.splits sum.splits
        dest: binary_Read_len)
  ultimately show ?thesis
    using False by (auto simp: pointSize_def dest!: binary_Read_u32_len binary_Read_u8_len)
qed

lemma parsePoint_v1:
  assumes "24 \<le> length r"
  shows "parsePoint fc r 1 =
    (Inr \<lparr>V6Point.X = le_word (take 4 r), V6Point.Y = le_word (take 4 (drop 4 r)),
          V6Point.Speed = to_uint16 fc (f32_mul (f32_decode (le_word (take 4 (drop 8 r)))) 4),
          V6Point.Width = to_uint16 fc (f32_mul (f32_decode (le_word (take 4 (drop 16 r)))) 4),
          V6Point.Direction = to_uint8 fc
            (f32_div (f32_mul (f32_decode (le_word (take 4 (drop 12 r)))) 255) float32_6_28318),
          V6Point.Pressure = to_uint8 fc (f32_mul (f32_decode (le_word (take 4 (drop 20 r)))) 255)\<rparr>,
     drop 24 r)"
  using assms by (simp add: parsePoint_def andThen_def binary_Read_u32_ok)

lemma parsePoint_v2:
  assumes "version \<noteq> 1" and "14 \<le> length r"
  shows "parsePoint fc r version =
    (Inr \<lparr>V6Point.X = le_word (take 4 r), V6Point.Y = le_word (take 4 (drop 4 r)),
          V6Point.Speed = le_word (take 2 (drop 8 r)),
          V6Point.Width = le_word (take 2 (drop 10 r)),
          V6Point.Direction = le_word (take 1 (drop 12 r)),
          V6Point.Pressure = le_word (take 1 (drop 13 r))\<rparr>,
     drop 14 r)"
  using assms by (simp add: parsePoint_def andThen_def read_ok)

lemma parsePoint_succeeds:
  assumes "pointSize version \<le> length r"
  shows "\<exists>point. parsePoint fc r version = (Inr point, drop (pointSize version) r)"
proof (cases "version = 1")
  case True
  then show ?thesis using assms parsePoint_v1 [of r fc] by (simp add: pointSize_def)
next
  case False
  then show ?thesis using assms parsePoint_v2 [of version r fc] by (simp add: pointSize_def)
qed


lemma parseLineData_loop_stop:
  "\<not> i < numPoints \<Longrightarrow> parseLineData_loop fc version numPoints i points r = (Inr points, r)"
  by (subst parseLineData_loop.simps) simp

lemma parseLineData_loop_step:
  "i < numPoints \<Longrightarrow> parseLineData_loop fc version numPoints i points r =
     (case parsePoint fc r version of
        (Inl err, r') \<Rightarrow> (Inl err, r')
      | (Inr point, r') \<Rightarrow> parseLineData_loop fc version numPoints (i + 1) (points[i := point]) r')"
  by (subst parseLineData_loop.simps) simp

lemma parseLineData_loop_len:
  "parseLineData_loop fc version numPoints i points r = (Inr points', r')
   \<Longrightarrow> length points' = length points
       \<and> length r = (numPoints - i) * pointSize version + length r'"
proof (induction "numPoints - i" arbitrary: i points r)
  case 0
  then show ?case by (simp add: parseLineData_loop_stop)
next
  case (Suc k)
  then have less: "i < numPoints" by simp
  with Suc.prems obtain point r1 where
    point: "parsePoint fc r version = (Inr point, r1)"
    and rest: "parseLineData_loop fc version numPoints (i + 1) (points[i := point]) r1
        = (Inr points', r')"
    by (auto simp: parseLineData_loop_step split: prod.splits sum.splits)
  have "k = numPoints - (i + 1)" using Suc.hyps(2) by simp
  from Suc.hyps(1) [OF this rest] parsePoint_len [OF point] less
  show ?case
    by (simp add: Suc_diff_Suc [symmetric] del: Suc_diff_Suc)
qed

lemma parseLineData_loop_succeeds:
  "(numPoints - i) * pointSize version \<le> length r \<Longrightarrow>
   \<exists>points'. parseLineData_loop fc version numPoints i points r
       = (Inr points', drop ((numPoints - i) * pointSize version) r)"
proof (induction "numPoints - i" arbitrary: i points r)
  case 0
  then show ?case by (simp add: parseLineData_loop_stop)
next
  case (Suc k)
  then have less: "i < numPoints" and k: "k = numPoints - (i + 1)"
    by simp_all
  have diff: "numPoints - i = Suc (numPoints - (i + 1))"
    using less by simp
  have "pointSize version \<le> length r"
    using Suc.prems diff by simp
  from parsePoint_succeeds [OF this] obtain point where
    point: "parsePoint fc r version = (Inr point, drop (pointSize version) r)" by blast
  have "(numPoints - (i + 1)) * pointSize version \<le> length (drop (pointSize version) r)"
    using Suc.prems diff by simp
  from Suc.hyps(1) [OF k this] obtain points' where
    "parseLineData_loop fc version numPoints (i + 1) (points[i := point]) (drop (pointSize version) r)
       = (Inr points', drop ((numPoints - (i + 1)) * pointSize version) (drop (pointSize version) r))"
    by blast
  then show ?case
    using less point diff by (simp add: parseLineData_loop_step add.commute)
qed

lemma parseLineData_loop_fails:
  assumes "length r < (numPoints - i) * pointSize version"
  shows "\<exists>err r'. parseLineData_loop fc version numPoints i points r = (Inl err, r')"
proof (cases "parseLineData_loop fc version numPoints i points r")
  case (Pair res r')
  show ?thesis
  proof (cases res)
    case (Inl err)
    with Pair show ?thesis by simp
  next
    case (Inr points')
    with Pair parseLineData_loop_len [of fc version numPoints i points r points' r'] assms
    show ?thesis by simp
  qed
qed

lemma fields_ragged:
  "parseLineData_fields (drop 23 ragged_payload)
     = (Inr (example_fields, 15), drop 52 ragged_payload)"
  by (simp add: ragged_payload_def example_fields_def parseLineData_fields_def expectTag_def
      readVarint_def andThen_def read_ok tag_defs le_word_def)

lemma parsePoint_ragged:
  "parsePoint fc (drop 52 ragged_payload) 2 = (Inr (hd (V6Line.Points example_line)), [0xAA])"
  by (simp add: ragged_payload_def example_line_def parsePoint_def andThen_def read_ok le_word_def)

lemma parseLineData_ragged:
  "parseLineData fc (drop 23 ragged_payload) 2 = (Inr example_line, [0xAA])"
  by (simp add: parseLineData_def fields_ragged andThen_def pointSize_def
      parseLineData_loop.simps parsePoint_ragged example_line_def example_fields_def)

lemma parseSceneItemBlock_ragged:
  "parseSceneItemBlock fc ragged_payload 2 = Inr (Some example_line)"
proof -
  have links: "parseSceneItemBlock_links ragged_payload = (Inr 0, drop 17 ragged_payload)"
    by (simp add: ragged_payload_def parseSceneItemBlock_links_def expectTag_def readVarint_def
        readCrdtId_def andThen_def read_ok tag_defs le_word_def)
  have tag: "expectTag (drop 17 ragged_payload) 6 TAG_LENGTH4 = (Inr True, drop 18 ragged_payload)"
    by (simp add: ragged_payload_def expectTag_def readVarint_def andThen_def tag_defs)
  have len: "binary_Read_u32 (drop 18 ragged_payload) = (Inr 45, drop 22 ragged_payload)"
    by (simp add: ragged_payload_def read_ok le_word_def)
  have type: "binary_Read_u8 (drop 22 ragged_payload) = (Inr ITEM_TYPE_LINE, drop 23 ragged_payload)"
    by (simp add: ragged_payload_def read_ok le_word_def ITEM_TYPE_LINE_def)
  have "length (drop 17 ragged_payload) \<noteq> 0"
    by (simp add: ragged_payload_def)
  then show ?thesis
    by (simp add: parseSceneItemBlock_def links tag len type parseLineData_ragged)
qed

lemma parseV6Block_ragged_block:
  "parseV6Block (ragged_block @ rest) = ((ragged_block_parsed, None), rest)"
proof -
  have hdr: "block_header ragged_block = ragged_block_parsed\<lparr>Data := []\<rparr>"
    by (simp add: block_header_def ragged_block_def ragged_block_parsed_def le_word_def)
  have size: "unat (le_word (take 4 ragged_block) :: 32 word) = 67"
    by (simp add: ragged_block_def le_word_def)
  have len: "length ragged_payload = 67"
    by (simp add: ragged_payload_def)
  have len_block: "length ragged_block = 75"
    by (simp add: ragged_block_def len)
  show ?thesis
    using parseV6Block_whole [of ragged_block rest]
    by (simp add: hdr size len_block Size_block_header)
      (simp add: ragged_block_def len ragged_block_parsed_def)
qed


subsection \<open>Evaluation on the example point of version 1\<close>

lemma version_1_point_fields:
  "length version_1_point = 24"
  "f32_decode (le_word (take 4 (drop 8 version_1_point))) = Finite 20000"
  "f32_decode (le_word (take 4 (drop 12 version_1_point))) = Finite (13176784 / 2 ^ 22)"
  "f32_decode (le_word (take 4 (drop 16 version_1_point))) = Finite 3"
  "f32_decode (le_word (take 4 (drop 20 version_1_point))) = Finite 1"
  by (simp_all add: version_1_point_def le_word_def f32_decode_def f32_val_def)

lemma speed_version_1_point:
  "to_uint16 fc (f32_mul (f32_decode (le_word (take 4 (drop 8 version_1_point)))) 4) = 14464"
proof -
  have "f32_mul (f32_decode (le_word (take 4 (drop 8 version_1_point)))) 4 = Finite (20000 * 4)"
    by (rule f32_mul4_exact [OF version_1_point_fields(2)]) simp
  moreover have "to_uint16 fc (Finite (20000 * 4)) = word_of_int (toward_zero (20000 * 4))"
    by (rule to_uint16_Finite) simp_all
  ultimately show ?thesis
    by (simp add: toward_zero_def)
qed

lemma width_version_1_point:
  "to_uint16 fc (f32_mul (f32_decode (le_word (take 4 (drop 16 version_1_point)))) 4) = 12"
proof -
  have "f32_mul (f32_decode (le_word (take 4 (drop 16 version_1_point)))) 4 = Finite (3 * 4)"
    by (rule f32_mul4_exact [OF version_1_point_fields(4)]) simp
  moreover have "to_uint16 fc (Finite (3 * 4)) = word_of_int (toward_zero (3 * 4))"
    by (rule to_uint16_Finite) simp_all
  ultimately show ?thesis
    by (simp add: toward_zero_def)
qed

lemma pressure_version_1_point:
  "to_uint8 fc (f32_mul (f32_decode (le_word (take 4 (drop 20 version_1_point)))) 255) = 255"
proof -
  have "f32_round (real 255) = Finite (real 255)"
    by (rule f32_round_nat) simp
  then have "f32_mul (f32_decode (le_word (take 4 (drop 20 version_1_point)))) 255 = Finite 255"
    by (simp add: version_1_point_fields(5) f32_mul_def)
  moreover have "to_uint8 fc (Finite 255) = word_of_int (toward_zero 255)"
    by (rule to_uint8_Finite) simp_all
  ultimately show ?thesis
    by (simp add: toward_zero_def)
qed

lemma direction_version_1_point:
  "to_uint8 fc (f32_div (f32_mul (f32_decode (le_word (take 4 (drop 12 version_1_point)))) 255)
      float32_6_28318) = 127"
proof -
  define b where "b = to_uint8 fc
    (f32_div (f32_mul (f32_decode (le_word (take 4 (drop 12 version_1_point)))) 255) float32_6_28318)"
  have "\<exists>y. \<bar>y - 13176784 / 2 ^ 22 * 255 / float32_6_28318\<bar> \<le> 1 / 2 ^ 15 \<and> 0 \<le> y \<and> y < 256
      \<and> uint b = \<lfloor>y\<rfloor>"
    unfolding b_def by (rule direction_conversion [OF version_1_point_fields(3)]) simp_all
  then obtain y where y: "\<bar>y - 13176784 / 2 ^ 22 * 255 / float32_6_28318\<bar> \<le> 1 / 2 ^ 15"
    and b: "uint b = \<lfloor>y\<rfloor>"
    by blast
  have "(13176784 :: real) / 2 ^ 22 * 255 / float32_6_28318 = 255 / 2"
    by (simp add: float32_6_28318_def)
  with y have "\<bar>y - 255 / 2\<bar> \<le> 1 / 2 ^ 15"
    by (simp only:)
  then have "y - 255 / 2 \<le> 1 / 2 ^ 15" "- (y - 255 / 2) \<le> 1 / 2 ^ 15"
    by (simp_all only: abs_le_iff)
  then have "127 \<le> y" "y < 128"
    by simp_all
  then have "\<lfloor>y\<rfloor> = 127"
    by (simp add: floor_eq_iff)
  with b have "word_of_int (uint b) = (word_of_int 127 :: byte)"
    by (simp only:)
  then show ?thesis
    unfolding b_def by simp
qed

lemma parsePoint_version_1_point:
  "parsePoint fc version_1_point 1 =
     (Inr \<lparr>V6Point.X = 0x42C80000, V6Point.Y = 0x43480000, V6Point.Speed = 14464,
           V6Point.Width = 12, V6Point.Direction = 127, V6Point.Pressure = 255\<rparr>, [])"
proof -
  have xy: "le_word (take 4 version_1_point) = (0x42C80000 :: 32 word)"
    "le_word (take 4 (drop 4 version_1_point)) = (0x43480000 :: 32 word)"
    by (simp_all add: version_1_point_def le_word_def)
  have rest: "drop 24 version_1_point = []"
    by (simp add: version_1_point_fields(1))
  have "24 \<le> length version_1_point"
    by (simp add: version_1_point_fields(1))
  from parsePoint_v1 [OF this, of fc] show ?thesis
    by (simp only: xy rest speed_version_1_point width_version_1_point
        pressure_version_1_point direction_version_1_point)
qed

subsection \<open>The number of points\<close>

text \<open>
  C6, as stated, fails. The points subblock of \<open>ragged_payload\<close> declares 15 bytes, which
  leaves a remainder of 1 for the 14-byte points of version 2; the stream decodes without
  error to a line with one point.
\<close>

theorem point_remainder_counterexample:
  "parseLineData_fields (drop 23 ragged_payload)
     = (Inr (example_fields, 15), drop 52 ragged_payload)
   \<and> 15 mod pointSize 2 = 1
   \<and> ParseV6 sample_conv (\<lambda>line. line) (HeaderV6 @ ragged_block)
       = Inr \<lparr>Version = V6, Layers = [\<lparr>Lines = [example_line]\<rparr>]\<rparr>
   \<and> length (V6Line.Points example_line) = 1"
proof -
  have "parseV6Blocks ragged_block = ([ragged_block_parsed], None)"
    using parseV6Blocks_loop_ok [OF _ parseV6Block_ragged_block, of "[]" "[]"]
    by (simp add: parseV6Blocks_def parseV6Blocks_loop_stop ragged_block_def)
  moreover have "extractLinesFromV6Blocks sample_conv [ragged_block_parsed] = [example_line]"
    by (simp add: extractLines_single ragged_block_parsed_def BLOCK_SCENE_ITEM_def
        parseSceneItemBlock_ragged)
  ultimately show ?thesis
    using ParseV6_after_header [of sample_conv "\<lambda>line. line" ragged_block]
    by (simp add: fields_ragged pointSize_def example_line_def)
qed

text \<open>
  C6, amended. Once the five tagged fields of a line are read, the number of points is the
  declared byte length of the points subblock divided by the point size, rounded down, where
  the point size is 24 for block version 1 and 14 for every other version. The remainder of
  the division plays no part: \<^verbatim>\<open>parseLineData\<close> succeeds whenever that many whole points
  are left in the payload, with exactly that many points and the reader just after them, and
  it fails only when fewer bytes than that are left.
\<close>

theorem point_count_is_quotient:
  assumes "parseLineData_fields r = (Inr (line0, pointsLen), r1)"
  shows "pointSize version = (if version = 1 then 24 else 14)
       \<and> (parseLineData fc r version = (Inr line, r') \<longrightarrow>
            length (V6Line.Points line) = unat pointsLen div pointSize version
          \<and> length r1 = (unat pointsLen div pointSize version) * pointSize version + length r')
       \<and> ((unat pointsLen div pointSize version) * pointSize version \<le> length r1 \<longrightarrow>
            (\<exists>parsed. parseLineData fc r version
                 = (Inr parsed, drop ((unat pointsLen div pointSize version) * pointSize version) r1)
               \<and> length (V6Line.Points parsed) = unat pointsLen div pointSize version))
       \<and> (length r1 < (unat pointsLen div pointSize version) * pointSize version \<longrightarrow>
            (\<exists>err rest. parseLineData fc r version = (Inl err, rest)))"
proof -
  define numPoints where "numPoints = unat pointsLen div pointSize version"
  have unfold: "parseLineData fc r version =
      andThen (parseLineData_loop fc version numPoints 0 (replicate numPoints zero_point) r1)
        (\<lambda>points r. (Inr (line0\<lparr>V6Line.Points := points\<rparr>), r))"
    using assms
    by (simp add: parseLineData_def andThen_def Let_def numPoints_def
        split: prod.splits sum.splits)
  have size: "pointSize version = (if version = 1 then 24 else 14)"
    by (simp add: pointSize_def)
  have count: "length (V6Line.Points line) = numPoints
      \<and> length r1 = numPoints * pointSize version + length r'"
    if "parseLineData fc r version = (Inr line, r')"
  proof -
    from that obtain points where
      loop: "parseLineData_loop fc version numPoints 0 (replicate numPoints zero_point) r1
          = (Inr points, r')"
      and line: "line = line0\<lparr>V6Line.Points := points\<rparr>"
      by (auto simp: unfold andThen_def split: prod.splits sum.splits)
    from parseLineData_loop_len [OF loop] line show ?thesis
      by simp
  qed
  have succeeds: "\<exists>parsed. parseLineData fc r version
        = (Inr parsed, drop (numPoints * pointSize version) r1)
      \<and> length (V6Line.Points parsed) = numPoints"
    if "numPoints * pointSize version \<le> length r1"
  proof -
    from that have "(numPoints - 0) * pointSize version \<le> length r1"
      by simp
    from parseLineData_loop_succeeds [OF this, of fc "replicate numPoints zero_point"]
    obtain points where
      loop: "parseLineData_loop fc version numPoints 0 (replicate numPoints zero_point) r1
          = (Inr points, drop (numPoints * pointSize version) r1)"
      by auto
    from parseLineData_loop_len [OF loop] have "length points = numPoints"
      by simp
    then show ?thesis
      by (simp add: unfold loop andThen_def)
  qed
  have fails: "\<exists>err rest. parseLineData fc r version = (Inl err, rest)"
    if "length r1 < numPoints * pointSize version"
  proof -
    from that have "length r1 < (numPoints - 0) * pointSize version"
      by simp
    from parseLineData_loop_fails [OF this, of fc "replicate numPoints zero_point"]
    show ?thesis
      by (auto simp: unfold andThen_def)
  qed
  from size count succeeds fails show ?thesis
    unfolding numPoints_def by blast
qed

theorem point_count_is_quotient_witness:
  "parseLineData_fields (drop 23 ragged_payload)
     = (Inr (example_fields, 15), drop 52 ragged_payload)
   \<and> unat (15 :: 32 word) mod pointSize 2 = 1
   \<and> (unat (15 :: 32 word) div pointSize 2) * pointSize 2 \<le> length (drop 52 ragged_payload)
   \<and> parseLineData sample_conv (drop 23 ragged_payload) 2 = (Inr example_line, [0xAA])
   \<and> drop ((unat (15 :: 32 word) div pointSize 2) * pointSize 2) (drop 52 ragged_payload) = [0xAA]
   \<and> length (V6Line.Points example_line) = unat (15 :: 32 word) div pointSize 2
   \<and> length (drop 52 ragged_payload)
       = (unat (15 :: 32 word) div pointSize 2) * pointSize 2 + length [0xAA :: byte]"
proof -
  note inst = point_count_is_quotient [OF fields_ragged, of 2 sample_conv example_line "[0xAA]"]
  have enough: "(unat (15 :: 32 word) div pointSize 2) * pointSize 2 \<le> length (drop 52 ragged_payload)"
    by (simp add: pointSize_def ragged_payload_def)
  have rest: "drop ((unat (15 :: 32 word) div pointSize 2) * pointSize 2) (drop 52 ragged_payload)
      = [0xAA]"
    by (simp add: pointSize_def ragged_payload_def)
  have remainder: "unat (15 :: 32 word) mod pointSize 2 = 1"
    by (simp add: pointSize_def)
  from inst enough obtain parsed where
    parsed: "parseLineData sample_conv (drop 23 ragged_payload) 2
      = (Inr parsed, drop ((unat (15 :: 32 word) div pointSize 2) * pointSize 2) (drop 52 ragged_payload))"
    by blast
  then have result: "parseLineData sample_conv (drop 23 ragged_payload) 2 = (Inr example_line, [0xAA])"
    using parseLineData_ragged [of sample_conv] by (simp only: rest)
  with inst have "length (V6Line.Points example_line) = unat (15 :: 32 word) div pointSize 2
      \<and> length (drop 52 ragged_payload)
          = (unat (15 :: 32 word) div pointSize 2) * pointSize 2 + length [0xAA :: byte]"
    by blast
  with fields_ragged remainder enough result rest show ?thesis
    by blast
qed

subsection \<open>The block version\<close>



subsection \<open>The conversion of version-1 points\<close>

text \<open>
  C7, as stated, fails. The speed of \<open>version_1_point\<close> is 20000, and four times that is
  beyond 16 bits; the parser stores 80000 modulo \<open>2 ^ 16\<close>, which is 14464, and not the
  largest 16-bit value 65535.
\<close>

theorem speed_is_not_clamped_counterexample:
  "f32_decode (le_word (take 4 (drop 8 version_1_point))) = Finite 20000
   \<and> parsePoint sample_conv version_1_point 1 =
       (Inr \<lparr>V6Point.X = 0x42C80000, V6Point.Y = 0x43480000, V6Point.Speed = 14464,
             V6Point.Width = 12, V6Point.Direction = 127, V6Point.Pressure = 255\<rparr>, [])
   \<and> (20000 * 4 :: int) mod 2 ^ 16 = 14464
   \<and> (14464 :: 16 word) \<noteq> 65535"
  by (simp add: version_1_point_fields(2) parsePoint_version_1_point)

text \<open>
  C7, amended. A version-1 point of at least 24 bytes always parses. Speed and width are
  multiplied by 4, the fraction is discarded, and the low 16 bits are kept: for a finite
  value whose product fits a signed 32-bit integer the field is the integer part of the
  product modulo \<open>2 ^ 16\<close>, which is the integer part itself when the product lies in
  \<open>[0, 65536)\<close>; nothing is clamped. A direction \<open>d\<close> in \<open>[0, 6.3]\<close>, which contains
  \<open>[0, 2\<pi>)\<close>, becomes the integer part of a number within \<open>1 / 2 ^ 15\<close> of
  \<open>d * 255 / 6.28318\<close>, and a pressure \<open>q\<close> in \<open>[0, 1]\<close> the integer part of a number within
  \<open>1 / 2 ^ 17\<close> of \<open>q * 255\<close>, both below 256; the distance is the rounding of the
  \<^verbatim>\<open>float32\<close> operations.
\<close>

theorem version_1_point_is_requantized:
  assumes "24 \<le> length r"
  shows "\<exists>point. parsePoint fc r 1 = (Inr point, drop 24 r)
     \<and> (f32_decode (le_word (take 4 (drop 8 r))) = Finite s
          \<and> - (2 ^ 31) \<le> s * 4 \<and> s * 4 < 2 ^ 31
        \<longrightarrow> uint (V6Point.Speed point) = toward_zero (s * 4) mod 2 ^ 16)
     \<and> (f32_decode (le_word (take 4 (drop 8 r))) = Finite s \<and> 0 \<le> s \<and> s * 4 < 65536
        \<longrightarrow> uint (V6Point.Speed point) = \<lfloor>s * 4\<rfloor>)
     \<and> (f32_decode (le_word (take 4 (drop 16 r))) = Finite w
          \<and> - (2 ^ 31) \<le> w * 4 \<and> w * 4 < 2 ^ 31
        \<longrightarrow> uint (V6Point.Width point) = toward_zero (w * 4) mod 2 ^ 16)
     \<and> (f32_decode (le_word (take 4 (drop 16 r))) = Finite w \<and> 0 \<le> w \<and> w * 4 < 65536
        \<longrightarrow> uint (V6Point.Width point) = \<lfloor>w * 4\<rfloor>)
     \<and> (f32_decode (le_word (take 4 (drop 12 r))) = Finite d \<and> 0 \<le> d \<and> d \<le> 63 / 10
        \<longrightarrow> (\<exists>y. \<bar>y - d * 255 / float32_6_28318\<bar> \<le> 1 / 2 ^ 15 \<and> 0 \<le> y \<and> y < 256
                 \<and> uint (V6Point.Direction point) = \<lfloor>y\<rfloor>))
     \<and> (f32_decode (le_word (take 4 (drop 20 r))) = Finite q \<and> 0 \<le> q \<and> q \<le> 1
        \<longrightarrow> (\<exists>y. \<bar>y - q * 255\<bar> \<le> 1 / 2 ^ 17 \<and> 0 \<le> y \<and> y < 256
                 \<and> uint (V6Point.Pressure point) = \<lfloor>y\<rfloor>))"
proof -
  define point where "point =
      \<lparr>V6Point.X = le_word (take 4 r), V6Point.Y = le_word (take 4 (drop 4 r)),
       V6Point.Speed = to_uint16 fc (f32_mul (f32_decode (le_word (take 4 (drop 8 r)))) 4),
       V6Point.Width = to_uint16 fc (f32_mul (f32_decode (le_word (take 4 (drop 16 r)))) 4),
       V6Point.Direction = to_uint8 fc
         (f32_div (f32_mul (f32_decode (le_word (take 4 (drop 12 r)))) 255) float32_6_28318),
       V6Point.Pressure = to_uint8 fc (f32_mul (f32_decode (le_word (take 4 (drop 20 r)))) 255)\<rparr>"
  have parse: "parsePoint fc r 1 = (Inr point, drop 24 r)"
    unfolding point_def using assms by (rule parsePoint_v1)
  have sel: "V6Point.Speed point = to_uint16 fc (f32_mul (f32_decode (le_word (take 4 (drop 8 r)))) 4)"
    "V6Point.Width point = to_uint16 fc (f32_mul (f32_decode (le_word (take 4 (drop 16 r)))) 4)"
    "V6Point.Direction point = to_uint8 fc
         (f32_div (f32_mul (f32_decode (le_word (take 4 (drop 12 r)))) 255) float32_6_28318)"
    "V6Point.Pressure point = to_uint8 fc (f32_mul (f32_decode (le_word (take 4 (drop 20 r)))) 255)"
    by (simp_all add: point_def)
  have speed_wraps: "f32_decode (le_word (take 4 (drop 8 r))) = Finite s
          \<and> - (2 ^ 31) \<le> s * 4 \<and> s * 4 < 2 ^ 31
        \<longrightarrow> uint (V6Point.Speed point) = toward_zero (s * 4) mod 2 ^ 16"
    unfolding sel using speed_conversion(1) [of _ s fc] by blast
  have speed_fits: "f32_decode (le_word (take 4 (drop 8 r))) = Finite s \<and> 0 \<le> s \<and> s * 4 < 65536
        \<longrightarrow> uint (V6Point.Speed point) = \<lfloor>s * 4\<rfloor>"
    unfolding sel using speed_conversion(2) [of _ s fc] by blast
  have width_wraps: "f32_decode (le_word (take 4 (drop 16 r))) = Finite w
          \<and> - (2 ^ 31) \<le> w * 4 \<and> w * 4 < 2 ^ 31
        \<longrightarrow> uint (V6Point.Width point) = toward_zero (w * 4) mod 2 ^ 16"
    unfolding sel using speed_conversion(1) [of _ w fc] by blast
  have width_fits: "f32_decode (le_word (take 4 (drop 16 r))) = Finite w \<and> 0 \<le> w \<and> w * 4 < 65536
        \<longrightarrow> uint (V6Point.Width point) = \<lfloor>w * 4\<rfloor>"
    unfolding sel using speed_conversion(2) [of _ w fc] by blast
  have direction: "f32_decode (le_word (take 4 (drop 12 r))) = Finite d \<and> 0 \<le> d \<and> d \<le> 63 / 10
        \<longrightarrow> (\<exists>y. \<bar>y - d * 255 / float32_6_28318\<bar> \<le> 1 / 2 ^ 15 \<and> 0 \<le> y \<and> y < 256
                 \<and> uint (V6Point.Direction point) = \<lfloor>y\<rfloor>)"
    unfolding sel using direction_conversion [of _ d fc] by blast
  have pressure: "f32_decode (le_word (take 4 (drop 20 r))) = Finite q \<and> 0 \<le> q \<and> q \<le> 1
        \<longrightarrow> (\<exists>y. \<bar>y - q * 255\<bar> \<le> 1 / 2 ^ 17 \<and> 0 \<le> y \<and> y < 256
                 \<and> uint (V6Point.Pressure point) = \<lfloor>y\<rfloor>)"
    unfolding sel using pressure_conversion [of _ q fc] by blast
  from parse speed_wraps speed_fits width_wraps width_fits direction pressure
  show ?thesis
    by (intro exI [of _ point] conjI)
qed

theorem version_1_point_is_requantized_witness:
  "24 \<le> length version_1_point
   \<and> f32_decode (le_word (take 4 (drop 8 version_1_point))) = Finite 20000
   \<and> f32_decode (le_word (take 4 (drop 12 version_1_point))) = Finite (13176784 / 2 ^ 22)
   \<and> f32_decode (le_word (take 4 (drop 16 version_1_point))) = Finite 3
   \<and> f32_decode (le_word (take 4 (drop 20 version_1_point))) = Finite 1
   \<and> (\<exists>point. parsePoint sample_conv version_1_point 1 = (Inr point, [])
        \<and> uint (V6Point.Speed point) = 80000 mod 2 ^ 16
        \<and> uint (V6Point.Width point) = 12
        \<and> (\<exists>y :: real. \<bar>y - 255 / 2\<bar> \<le> 1 / 2 ^ 15 \<and> uint (V6Point.Direction point) = \<lfloor>y\<rfloor>)
        \<and> (\<exists>y :: real. \<bar>y - 255\<bar> \<le> 1 / 2 ^ 17 \<and> uint (V6Point.Pressure point) = \<lfloor>y\<rfloor>))"
proof -
  have len: "24 \<le> length version_1_point"
    by (simp add: version_1_point_fields(1))
  have rest: "drop 24 version_1_point = []"
    by (simp add: version_1_point_fields(1))
  have half: "(13176784 :: real) / 2 ^ 22 * 255 / float32_6_28318 = 255 / 2"
    by (simp add: float32_6_28318_def)
  from version_1_point_is_requantized [OF len, where fc = sample_conv and s = 20000
      and w = 3 and d = "13176784 / 2 ^ 22" and q = 1]
  obtain point where point: "parsePoint sample_conv version_1_point 1 = (Inr point, [])"
    and speed_if: "f32_decode (le_word (take 4 (drop 8 version_1_point))) = Finite 20000
          \<and> - (2 ^ 31) \<le> (20000 :: real) * 4 \<and> (20000 :: real) * 4 < 2 ^ 31
        \<longrightarrow> uint (V6Point.Speed point) = toward_zero (20000 * 4) mod 2 ^ 16"
    and width_if: "f32_decode (le_word (take 4 (drop 16 version_1_point))) = Finite 3
          \<and> 0 \<le> (3 :: real) \<and> (3 :: real) * 4 < 65536
        \<longrightarrow> uint (V6Point.Width point) = \<lfloor>3 * 4 :: real\<rfloor>"
    and dir_if: "f32_decode (le_word (take 4 (drop 12 version_1_point))) = Finite (13176784 / 2 ^ 22)
          \<and> 0 \<le> (13176784 :: real) / 2 ^ 22 \<and> (13176784 :: real) / 2 ^ 22 \<le> 63 / 10
        \<longrightarrow> (\<exists>y. \<bar>y - 13176784 / 2 ^ 22 * 255 / float32_6_28318\<bar> \<le> 1 / 2 ^ 15
                 \<and> 0 \<le> y \<and> y < 256 \<and> uint (V6Point.Direction point) = \<lfloor>y\<rfloor>)"
    and pressure_if: "f32_decode (le_word (take 4 (drop 20 version_1_point))) = Finite 1
          \<and> 0 \<le> (1 :: real) \<and> (1 :: real) \<le> 1
        \<longrightarrow> (\<exists>y :: real. \<bar>y - 1 * 255\<bar> \<le> 1 / 2 ^ 17 \<and> 0 \<le> y \<and> y < 256
                 \<and> uint (V6Point.Pressure point) = \<lfloor>y\<rfloor>)"
    unfolding rest by blast
  have speed: "uint (V6Point.Speed point) = toward_zero (20000 * 4) mod 2 ^ 16"
    using speed_if version_1_point_fields(2) by simp
  have width: "uint (V6Point.Width point) = \<lfloor>3 * 4 :: real\<rfloor>"
    using width_if version_1_point_fields(4) by simp
  have dir: "\<exists>y. \<bar>y - 13176784 / 2 ^ 22 * 255 / float32_6_28318\<bar> \<le> 1 / 2 ^ 15
                 \<and> 0 \<le> y \<and> y < 256 \<and> uint (V6Point.Direction point) = \<lfloor>y\<rfloor>"
  proof -
    have "0 \<le> (13176784 :: real) / 2 ^ 22 \<and> (13176784 :: real) / 2 ^ 22 \<le> 63 / 10"
      by simp
    with dir_if version_1_point_fields(3) show ?thesis
      by (simp only: simp_thms)
  qed
  have pressure: "\<exists>y :: real. \<bar>y - 1 * 255\<bar> \<le> 1 / 2 ^ 17 \<and> 0 \<le> y \<and> y < 256
                 \<and> uint (V6Point.Pressure point) = \<lfloor>y\<rfloor>"
  proof -
    have "0 \<le> (1 :: real) \<and> (1 :: real) \<le> 1"
      by simp
    with pressure_if version_1_point_fields(5) show ?thesis
      by (simp only: simp_thms)
  qed
  from speed have "uint (V6Point.Speed point) = 80000 mod 2 ^ 16"
    by (simp add: toward_zero_def)
  moreover from width have "uint (V6Point.Width point) = 12"
    by simp
  moreover from dir have "\<exists>y :: real. \<bar>y - 255 / 2\<bar> \<le> 1 / 2 ^ 15 \<and> uint (V6Point.Direction point) = \<lfloor>y\<rfloor>"
    by (simp only: half) blast
  moreover from pressure have "\<exists>y :: real. \<bar>y - 255\<bar> \<le> 1 / 2 ^ 17 \<and> uint (V6Point.Pressure point) = \<lfloor>y\<rfloor>"
    by (simp only: mult_1) blast
  ultimately show ?thesis
    using len point version_1_point_fields(2-5) by blast
qed

section \<open>Properties of allocation\<close>

lemma parseV6Block_huge_header:
  "parseV6Block huge_header =
     ((\<lparr>BlockType = 0, MinVersion = 1, CurrentVersion = 1, Size = 0xFFFFFFFF,
        Data = make_bytes 4294967295\<rparr>, Some EOF), [])"
  using parseV6Block_header [of huge_header]
  by (simp add: huge_header_def block_header_def le_word_def)

text \<open>
  C5, as stated, fails for the block length. On a 51-byte input whose only block header
  declares \<open>2 ^ 32 - 1\<close> payload bytes, \<^verbatim>\<open>parseV6Block\<close> makes a buffer of that length
  although no byte is left to read; the read then reports \<^verbatim>\<open>io.EOF\<close> and the stream
  decodes to an empty document.
\<close>

theorem unchecked_allocation_counterexample:
  "length (HeaderV6 @ huge_header) = 51
   \<and> length (Data (fst (fst (parseV6Block huge_header)))) = 4294967295
   \<and> snd (fst (parseV6Block huge_header)) = Some EOF
   \<and> ParseV6 sample_conv (\<lambda>line. line) (HeaderV6 @ huge_header)
       = Inr \<lparr>Version = V6, Layers = [\<lparr>Lines = []\<rparr>]\<rparr>"
proof -
  have "parseV6Blocks huge_header = ([], None)"
    using parseV6Blocks_loop_err [OF _ parseV6Block_huge_header, of "[]"]
    by (simp add: parseV6Blocks_def huge_header_def)
  then show ?thesis
    by (simp add: ParseV6_after_header parseV6Block_huge_header length_make_bytes
        length_HeaderV6 extractLinesFromV6Blocks_def)
      (simp add: huge_header_def)
qed

text \<open>
  C5, amended. Once the eight header bytes of a block are read, \<^verbatim>\<open>parseV6Block\<close> makes a
  payload buffer of exactly the declared block length, whatever number of bytes is left; a
  declared length beyond the bytes left is found only afterwards, by the read into that
  buffer failing with \<^verbatim>\<open>io.EOF\<close> when nothing is left and \<^verbatim>\<open>io.ErrUnexpectedEOF\<close>
  otherwise.
\<close>

theorem block_buffer_allocated_unchecked:
  assumes "8 \<le> length r" and "parseV6Block r = ((block, err), r')"
  shows "Size block = le_word (take 4 r)
       \<and> length (Data block) = unat (Size block)
       \<and> (length r - 8 < unat (Size block) \<longrightarrow>
            err = Some (if length r = 8 then EOF else ErrUnexpectedEOF))"
proof -
  define n where "n = unat (le_word (take 4 r) :: 32 word)"
  have n: "unat (Size (block_header r)) = n"
    by (simp add: n_def Size_block_header)
  have empty: "Data (block_header r) = []"
    by (simp add: block_header_def)
  note eq = parseV6Block_header [OF assms(1), unfolded Let_def n]
  consider (zero) "n = 0" | (bare) "n \<noteq> 0" "length r = 8"
    | (short) "n \<noteq> 0" "length r \<noteq> 8" "length r - 8 < n"
    | (whole) "n \<noteq> 0" "length r \<noteq> 8" "\<not> length r - 8 < n"
    by blast
  then show ?thesis
  proof cases
    case zero
    with eq assms(2) have "block = block_header r" by simp
    with zero show ?thesis by (simp add: n empty Size_block_header [symmetric])
  next
    case bare
    with eq assms(2) have "block = (block_header r)\<lparr>Data := make_bytes n\<rparr>" "err = Some EOF"
      by simp_all
    with bare show ?thesis by (simp add: n length_make_bytes Size_block_header [symmetric])
  next
    case short
    with eq assms(2)
    have "block = (block_header r)\<lparr>Data := drop 8 r @ drop (length r - 8) (make_bytes n)\<rparr>"
      "err = Some ErrUnexpectedEOF"
      by simp_all
    with short assms(1) show ?thesis
      by (simp add: n length_make_bytes Size_block_header [symmetric])
  next
    case whole
    with eq assms(2) have "block = (block_header r)\<lparr>Data := take n (drop 8 r)\<rparr>"
      by simp
    with whole show ?thesis by (simp add: n Size_block_header [symmetric])
  qed
qed

theorem block_buffer_allocated_unchecked_witness:
  "8 \<le> length huge_header
   \<and> Size (fst (fst (parseV6Block huge_header))) = le_word (take 4 huge_header)
   \<and> length (Data (fst (fst (parseV6Block huge_header)))) = 4294967295
   \<and> length huge_header - 8 < unat (Size (fst (fst (parseV6Block huge_header))))
   \<and> snd (fst (parseV6Block huge_header)) = Some EOF"
proof -
  have len: "8 \<le> length huge_header" "length huge_header = 8"
    by (simp_all add: huge_header_def)
  have size: "unat (0xFFFFFFFF :: 32 word) = 4294967295"
    by simp
  note inst = block_buffer_allocated_unchecked [OF len(1) parseV6Block_huge_header]
  show ?thesis
    using inst len by (simp add: parseV6Block_huge_header size)
qed

end
